theory Spec2Isabelle
  imports Main
begin

section \<open>Strings and JSON values\<close>

text \<open>
  A JavaScript string is a sequence of UTF-16 code units. A code unit is modelled as a
  natural number (below 65536 for every string the engine can build), a string as the
  list of its code units. \<open>js\<close> turns a literal of the theory into such a list.
\<close>

type_synonym code_unit = nat
type_synonym jsstring = "code_unit list"

definition js :: "string \<Rightarrow> jsstring" where
  "js s = map of_char s"

text \<open>
  The value a successful \<open>JSON.parse\<close> returns. A number carries the exact decimal value
  of its literal as mantissa and decimal exponent (\<open>JNum m e\<close> is \<open>m * 10 ^ e\<close>); the
  engine's rounding to a double is not modelled. An object carries its members in the
  order of the text; a property read takes the last binding of the key, as the engine
  overwrites an earlier duplicate.
\<close>

datatype json =
    JNull
  | JBool bool
  | JNum int int
  | JStr jsstring
  | JArr "json list"
  | JObj "(jsstring \<times> json) list"

subsection \<open>String operations of the engine\<close>

text \<open>
  The code units that \<open>\s\<close> in a regular expression and \<open>String.prototype.trim\<close> treat as
  white space: TAB, LF, VT, FF, CR, SP, NBSP, the other space separators of Unicode, the
  line and paragraph separators and the byte order mark.
\<close>

definition is_whitespace :: "code_unit \<Rightarrow> bool" where
  "is_whitespace c \<longleftrightarrow>
     c = 9 \<or> c = 10 \<or> c = 11 \<or> c = 12 \<or> c = 13 \<or> c = 32 \<or> c = 160 \<or> c = 5760 \<or>
     (8192 \<le> c \<and> c \<le> 8202) \<or> c = 8232 \<or> c = 8233 \<or> c = 8239 \<or> c = 8287 \<or>
     c = 12288 \<or> c = 65279"

definition trim :: "jsstring \<Rightarrow> jsstring" where
  "trim s = rev (dropWhile is_whitespace (rev (dropWhile is_whitespace s)))"

definition startsWith :: "jsstring \<Rightarrow> jsstring \<Rightarrow> bool" where
  "startsWith s p \<longleftrightarrow> take (length p) s = p"

text \<open>\<open>s.indexOf(pat)\<close>, with \<open>None\<close> for -1.\<close>

fun indexOf :: "jsstring \<Rightarrow> jsstring \<Rightarrow> nat option" where
  "indexOf [] pat = (if pat = [] then Some 0 else None)"
| "indexOf (c # cs) pat =
     (if startsWith (c # cs) pat then Some 0 else map_option Suc (indexOf cs pat))"

text \<open>
  \<open>s.replace(pat, rep)\<close> for a string pattern: the first occurrence is replaced. (The
  replacement is used literally; the code passes the empty string.)
\<close>

definition replace_first :: "jsstring \<Rightarrow> jsstring \<Rightarrow> jsstring \<Rightarrow> jsstring" where
  "replace_first s pat rep =
     (case indexOf s pat of
        None \<Rightarrow> s
      | Some i \<Rightarrow> take i s @ rep @ drop (i + length pat) s)"

text \<open>
  \<open>String.prototype.toLowerCase\<close>. On a string of code units below 256 (Latin-1) the
  capital letters move up by 32 and nothing else changes. On every other string the
  result is that of Unicode's case tables (which also look at neighbours and change the
  length of some strings): \<open>lower\<close> stands for the engine's function there and is left
  open.
\<close>

definition toLowerCase_unit :: "code_unit \<Rightarrow> code_unit" where
  "toLowerCase_unit c =
     (if (65 \<le> c \<and> c \<le> 90) \<or> (192 \<le> c \<and> c \<le> 214) \<or> (216 \<le> c \<and> c \<le> 222)
      then c + 32 else c)"

definition toLowerCase :: "(jsstring \<Rightarrow> jsstring) \<Rightarrow> jsstring \<Rightarrow> jsstring" where
  "toLowerCase lower s =
     (if list_all (\<lambda>c. c < 256) s then map toLowerCase_unit s else lower s)"

text \<open>The decimal digits of an integer, as \<open>Number::toString\<close> writes a timestamp.\<close>

fun show_nat :: "nat \<Rightarrow> jsstring" where
  "show_nat n = (if n < 10 then [48 + n] else show_nat (n div 10) @ [48 + n mod 10])"

declare show_nat.simps [simp del]

definition show_int :: "int \<Rightarrow> jsstring" where
  "show_int i = (if i < 0 then 45 # show_nat (nat (- i)) else show_nat (nat i))"

subsection \<open>JSON.parse\<close>

text \<open>
  The grammar of ECMA-404 as \<open>JSON.parse\<close> reads it. White space between tokens is
  SP, TAB, LF and CR only.
\<close>

definition json_ws :: "code_unit \<Rightarrow> bool" where
  "json_ws c \<longleftrightarrow> c = 32 \<or> c = 9 \<or> c = 10 \<or> c = 13"

definition skip_ws :: "jsstring \<Rightarrow> jsstring" where
  "skip_ws s = dropWhile json_ws s"

definition is_digit :: "code_unit \<Rightarrow> bool" where
  "is_digit c \<longleftrightarrow> 48 \<le> c \<and> c \<le> 57"

definition digits_value :: "jsstring \<Rightarrow> nat" where
  "digits_value ds = foldl (\<lambda>n d. 10 * n + (d - 48)) 0 ds"

definition hex_value :: "code_unit \<Rightarrow> nat option" where
  "hex_value c =
     (if 48 \<le> c \<and> c \<le> 57 then Some (c - 48)
      else if 65 \<le> c \<and> c \<le> 70 then Some (c - 55)
      else if 97 \<le> c \<and> c \<le> 102 then Some (c - 87)
      else None)"

definition hex4 :: "code_unit \<Rightarrow> code_unit \<Rightarrow> code_unit \<Rightarrow> code_unit \<Rightarrow> code_unit option" where
  "hex4 a b c d =
     (case (hex_value a, hex_value b, hex_value c, hex_value d) of
        (Some w, Some x, Some y, Some z) \<Rightarrow> Some (4096 * w + 256 * x + 16 * y + z)
      | _ \<Rightarrow> None)"

text \<open>The character after a backslash: \<open>" \ / b f n r t\<close>.\<close>

definition escape_char :: "code_unit \<Rightarrow> code_unit option" where
  "escape_char e =
     (if e = 34 then Some 34 else if e = 92 then Some 92 else if e = 47 then Some 47
      else if e = 98 then Some 8 else if e = 102 then Some 12 else if e = 110 then Some 10
      else if e = 114 then Some 13 else if e = 116 then Some 9 else None)"

text \<open>
  The characters of a string after its opening quote, up to and including the closing
  quote. A control character (below U+0020) must be escaped.
\<close>

fun parse_chars :: "jsstring \<Rightarrow> (jsstring \<times> jsstring) option" where
  "parse_chars [] = None"
| "parse_chars (c # cs) =
     (if c = 34 then Some ([], cs)
      else if c = 92 then
        (case cs of
           [] \<Rightarrow> None
         | e # r \<Rightarrow>
            if e = 117 then
              (case r of
                 h1 # h2 # h3 # h4 # r' \<Rightarrow>
                   (case hex4 h1 h2 h3 h4 of
                      None \<Rightarrow> None
                    | Some u \<Rightarrow> map_option (\<lambda>(str, rest). (u # str, rest)) (parse_chars r'))
               | _ \<Rightarrow> None)
            else
              (case escape_char e of
                 None \<Rightarrow> None
               | Some x \<Rightarrow> map_option (\<lambda>(str, rest). (x # str, rest)) (parse_chars r)))
      else if c < 32 then None
      else map_option (\<lambda>(str, rest). (c # str, rest)) (parse_chars cs))"

text \<open>
  A number: \<open>-? (0 | [1-9][0-9]*) (. [0-9]+)? ([eE] [+-]? [0-9]+)?\<close>. The value
  is the integer written by the digits of the integer and fraction parts, times ten to
  the exponent less the number of fraction digits.
\<close>

definition parse_int_part :: "jsstring \<Rightarrow> (jsstring \<times> jsstring) option" where
  "parse_int_part s =
     (case s of
        [] \<Rightarrow> None
      | c # cs \<Rightarrow>
         if c = 48 then Some ([48], cs)
         else if is_digit c then Some (takeWhile is_digit s, dropWhile is_digit s)
         else None)"

definition parse_frac_part :: "jsstring \<Rightarrow> (jsstring \<times> jsstring) option" where
  "parse_frac_part s =
     (case s of
        c # cs \<Rightarrow>
         if c = 46 then
           (if takeWhile is_digit cs = [] then None
            else Some (takeWhile is_digit cs, dropWhile is_digit cs))
         else Some ([], s)
      | [] \<Rightarrow> Some ([], s))"

definition parse_exp_digits :: "jsstring \<Rightarrow> (nat \<times> jsstring) option" where
  "parse_exp_digits s =
     (if takeWhile is_digit s = [] then None
      else Some (digits_value (takeWhile is_digit s), dropWhile is_digit s))"

definition parse_exp_part :: "jsstring \<Rightarrow> (int \<times> jsstring) option" where
  "parse_exp_part s =
     (case s of
        c # cs \<Rightarrow>
         if c = 101 \<or> c = 69 then
           (case cs of
              d # ds \<Rightarrow>
                if d = 45 then map_option (\<lambda>(n, r). (- int n, r)) (parse_exp_digits ds)
                else if d = 43 then map_option (\<lambda>(n, r). (int n, r)) (parse_exp_digits ds)
                else map_option (\<lambda>(n, r). (int n, r)) (parse_exp_digits cs)
            | [] \<Rightarrow> None)
         else Some (0, s)
      | [] \<Rightarrow> Some (0, s))"

definition parse_unsigned :: "jsstring \<Rightarrow> (int \<times> int \<times> jsstring) option" where
  "parse_unsigned s =
     (case parse_int_part s of
        None \<Rightarrow> None
      | Some (ds, r1) \<Rightarrow>
         (case parse_frac_part r1 of
            None \<Rightarrow> None
          | Some (fs, r2) \<Rightarrow>
             (case parse_exp_part r2 of
                None \<Rightarrow> None
              | Some (ex, r3) \<Rightarrow>
                  Some (int (digits_value (ds @ fs)), ex - int (length fs), r3))))"

definition parse_number :: "jsstring \<Rightarrow> (json \<times> jsstring) option" where
  "parse_number s =
     (case s of
        c # cs \<Rightarrow>
         if c = 45 then map_option (\<lambda>(m, e, r). (JNum (- m) e, r)) (parse_unsigned cs)
         else map_option (\<lambda>(m, e, r). (JNum m e, r)) (parse_unsigned s)
      | [] \<Rightarrow> None)"

text \<open>
  Values, array elements and object members by recursive descent. The first argument
  bounds the depth of the calls; \<open>JSON_parse\<close> starts with more than the text can use.
  \<open>parse_value\<close> skips the white space before the value and stops right behind it.
  \<open>parse_elements\<close> reads from the first element to the closing bracket,
  \<open>parse_members\<close> from the first key to the closing brace.
\<close>

fun parse_value :: "nat \<Rightarrow> jsstring \<Rightarrow> (json \<times> jsstring) option"
  and parse_elements :: "nat \<Rightarrow> jsstring \<Rightarrow> (json list \<times> jsstring) option"
  and parse_members :: "nat \<Rightarrow> jsstring \<Rightarrow> ((jsstring \<times> json) list \<times> jsstring) option"
where
  "parse_value 0 s = None"
| "parse_value (Suc n) s =
     (case skip_ws s of
        [] \<Rightarrow> None
      | c # cs \<Rightarrow>
         if c = 123 then
           (case skip_ws cs of
              [] \<Rightarrow> None
            | d # ds \<Rightarrow>
               if d = 125 then Some (JObj [], ds)
               else map_option (\<lambda>(ms, r). (JObj ms, r)) (parse_members n cs))
         else if c = 91 then
           (case skip_ws cs of
              [] \<Rightarrow> None
            | d # ds \<Rightarrow>
               if d = 93 then Some (JArr [], ds)
               else map_option (\<lambda>(vs, r). (JArr vs, r)) (parse_elements n cs))
         else if c = 34 then map_option (\<lambda>(str, r). (JStr str, r)) (parse_chars cs)
         else if startsWith (c # cs) (js ''true'') then Some (JBool True, drop 4 (c # cs))
         else if startsWith (c # cs) (js ''false'') then Some (JBool False, drop 5 (c # cs))
         else if startsWith (c # cs) (js ''null'') then Some (JNull, drop 4 (c # cs))
         else parse_number (c # cs))"
| "parse_elements 0 s = None"
| "parse_elements (Suc n) s =
     (case parse_value n s of
        None \<Rightarrow> None
      | Some (v, r) \<Rightarrow>
         (case skip_ws r of
            [] \<Rightarrow> None
          | c # cs \<Rightarrow>
             if c = 44 then map_option (\<lambda>(vs, r'). (v # vs, r')) (parse_elements n cs)
             else if c = 93 then Some ([v], cs)
             else None))"
| "parse_members 0 s = None"
| "parse_members (Suc n) s =
     (case skip_ws s of
        [] \<Rightarrow> None
      | q # qs \<Rightarrow>
         if q = 34 then
           (case parse_chars qs of
              None \<Rightarrow> None
            | Some (k, r) \<Rightarrow>
               (case skip_ws r of
                  [] \<Rightarrow> None
                | c # cs \<Rightarrow>
                   if c = 58 then
                     (case parse_value n cs of
                        None \<Rightarrow> None
                      | Some (v, r') \<Rightarrow>
                         (case skip_ws r' of
                            [] \<Rightarrow> None
                          | d # ds \<Rightarrow>
                             if d = 44 then
                               map_option (\<lambda>(ms, r''). ((k, v) # ms, r'')) (parse_members n ds)
                             else if d = 125 then Some ([(k, v)], ds)
                             else None))
                   else None))
         else None)"

text \<open>
  \<open>JSON.parse(text)\<close>: one value, white space around it, nothing else. \<open>None\<close> is the
  SyntaxError.
\<close>

definition JSON_parse :: "jsstring \<Rightarrow> json option" where
  "JSON_parse text =
     (case parse_value (2 * length text + 2) text of
        None \<Rightarrow> None
      | Some (v, r) \<Rightarrow> if skip_ws r = [] then Some v else None)"

subsection \<open>JSON.stringify\<close>

text \<open>
  \<open>QuoteJSONString\<close>: the quote, the backslash and the control characters are escaped,
  a surrogate that is not part of a pair is written as \<open>\udxxx\<close>, everything else
  stands for itself.
\<close>

definition hex_digit :: "nat \<Rightarrow> code_unit" where
  "hex_digit n = (if n < 10 then 48 + n else 87 + n)"

definition unicode_escape :: "code_unit \<Rightarrow> jsstring" where
  "unicode_escape c =
     [92, 117, hex_digit (c div 4096), hex_digit (c div 256 mod 16),
      hex_digit (c div 16 mod 16), hex_digit (c mod 16)]"

definition is_high_surrogate :: "code_unit \<Rightarrow> bool" where
  "is_high_surrogate c \<longleftrightarrow> 55296 \<le> c \<and> c \<le> 56319"

definition is_low_surrogate :: "code_unit \<Rightarrow> bool" where
  "is_low_surrogate c \<longleftrightarrow> 56320 \<le> c \<and> c \<le> 57343"

fun quote_chars :: "jsstring \<Rightarrow> jsstring" where
  "quote_chars [] = []"
| "quote_chars (c # cs) =
     (if c = 8 then 92 # 98 # quote_chars cs
      else if c = 9 then 92 # 116 # quote_chars cs
      else if c = 10 then 92 # 110 # quote_chars cs
      else if c = 12 then 92 # 102 # quote_chars cs
      else if c = 13 then 92 # 114 # quote_chars cs
      else if c = 34 then 92 # 34 # quote_chars cs
      else if c = 92 then 92 # 92 # quote_chars cs
      else if c < 32 then unicode_escape c @ quote_chars cs
      else if is_high_surrogate c then
        (case cs of
           [] \<Rightarrow> unicode_escape c
         | d # ds \<Rightarrow>
             if is_low_surrogate d then c # d # quote_chars ds
             else unicode_escape c @ quote_chars cs)
      else if is_low_surrogate c then unicode_escape c @ quote_chars cs
      else c # quote_chars cs)"

definition QuoteJSONString :: "jsstring \<Rightarrow> jsstring" where
  "QuoteJSONString str = 34 # quote_chars str @ [34]"

text \<open>
  A number whose exponent is zero is an integer and is written by its digits, as the
  engine writes a timestamp. For another exponent the engine's digits depend on the
  double; the text here is mantissa, \<open>e\<close>, exponent, which denotes the same number.
\<close>

definition number_text :: "int \<Rightarrow> int \<Rightarrow> jsstring" where
  "number_text m e = (if e = 0 then show_int m else show_int m @ 101 # show_int e)"

fun JSON_stringify :: "json \<Rightarrow> jsstring"
  and stringify_elements :: "json list \<Rightarrow> jsstring"
  and stringify_members :: "(jsstring \<times> json) list \<Rightarrow> jsstring"
where
  "JSON_stringify JNull = js ''null''"
| "JSON_stringify (JBool b) = (if b then js ''true'' else js ''false'')"
| "JSON_stringify (JNum m e) = number_text m e"
| "JSON_stringify (JStr str) = QuoteJSONString str"
| "JSON_stringify (JArr items) = 91 # stringify_elements items @ [93]"
| "JSON_stringify (JObj members) = 123 # stringify_members members @ [125]"
| "stringify_elements [] = []"
| "stringify_elements [x] = JSON_stringify x"
| "stringify_elements (x # y # ys) = JSON_stringify x @ 44 # stringify_elements (y # ys)"
| "stringify_members [] = []"
| "stringify_members [(k, v)] = QuoteJSONString k @ 58 # JSON_stringify v"
| "stringify_members ((k, v) # m # ms) =
     QuoteJSONString k @ 58 # JSON_stringify v @ 44 # stringify_members (m # ms)"

section \<open>Data model (types.ts)\<close>

record Source =
  uri :: jsstring
  source_title :: jsstring
  source_content :: "jsstring option"

datatype role = User | Assistant

text \<open>
  \<open>role\<close> and \<open>timestamp\<close> are required by the interface, but the reconciled message
  is built by spreading the last message of the session, which is \<open>undefined\<close> when the
  list is empty; the object then has neither key. An absent key and a key holding
  \<open>undefined\<close> are both \<open>None\<close>.
\<close>

record Message =
  role :: "role option"
  content :: jsstring
  msg_image :: "jsstring option"
  sources :: "Source list option"
  timestamp :: "int option"
  useWebSearch :: "bool option"

text \<open>
  The study-aid slots hold what the model's JSON held: the code checks that a slot value
  is a non-empty array and nothing else, so items and titles are JSON values.
\<close>

record StudySession =
  session_id :: jsstring
  title :: jsstring
  createdAt :: int
  updatedAt :: int
  messages :: "Message list"
  flashcards :: "json list"
  flashcardsTitle :: json
  quizItems :: "json list"
  quizTitle :: json
  slides :: "json list"
  slidesTitle :: json
  documentContext :: jsstring
  documentSummary :: jsstring

text \<open>The state of \<open>AppContent\<close> that the session logic reads and writes.\<close>

datatype study_mode = ModeChat | ModeFlashcards | ModeQuiz | ModeSlides

datatype notification_type = NSuccess | NError | NInfo

record Notification =
  notification_title :: jsstring
  notification_message :: jsstring
  notification_type :: notification_type

record AppState =
  sessions :: "StudySession list"
  activeSessionId :: "jsstring option"
  studyMode :: study_mode
  isLoading :: bool
  notifications :: "Notification list"

text \<open>What a session-list update can raise.\<close>

datatype js_error = TypeError | QuotaExceededError

section \<open>Citation sources (geminiService.ts, getChatResponse)\<close>

text \<open>
  A JavaScript \<open>Map\<close> keeps its entries in insertion order. \<open>set\<close> on a key that is
  present overwrites the value and leaves the entry where it is; on a new key it appends.
  \<open>new Map(entries)\<close> calls \<open>set\<close> for each entry in turn.
\<close>

fun Map_set :: "('k \<times> 'v) list \<Rightarrow> 'k \<Rightarrow> 'v \<Rightarrow> ('k \<times> 'v) list" where
  "Map_set [] k v = [(k, v)]"
| "Map_set ((k', v') # m) k v =
     (if k' = k then (k', v) # m else (k', v') # Map_set m k v)"

definition new_Map :: "('k \<times> 'v) list \<Rightarrow> ('k \<times> 'v) list" where
  "new_Map entries = foldl (\<lambda>m (k, v). Map_set m k v) [] entries"

definition Map_values :: "('k \<times> 'v) list \<Rightarrow> 'v list" where
  "Map_values m = map snd m"

text \<open>\<open>Array.from(new Map(allSources.map(s => [s.uri, s])).values())\<close>\<close>

definition dedup_sources :: "Source list \<Rightarrow> Source list" where
  "dedup_sources allSources = Map_values (new_Map (map (\<lambda>s. (uri s, s)) allSources))"

text \<open>
  One chunk of the response stream: its text (the getter may give \<open>undefined\<close>) and the
  grounding chunks of its first candidate, when it has any.
\<close>

record RetrievedContext =
  rc_uri :: "jsstring option"
  rc_title :: "jsstring option"
  rc_content :: "jsstring option"

record Web =
  web_uri :: "jsstring option"
  web_title :: "jsstring option"

record GroundingChunk =
  retrievedContext :: "RetrievedContext option"
  web :: "Web option"

record StreamChunk =
  chunk_text :: "jsstring option"
  groundingChunks :: "GroundingChunk list option"

text \<open>\<open>x || ''\<close> and the truth value of an optional string.\<close>

definition or_empty :: "jsstring option \<Rightarrow> jsstring" where
  "or_empty x = (case x of None \<Rightarrow> [] | Some v \<Rightarrow> v)"

definition truthy_string :: "jsstring option \<Rightarrow> bool" where
  "truthy_string x \<longleftrightarrow> (case x of None \<Rightarrow> False | Some v \<Rightarrow> v \<noteq> [])"

definition retrieved_source :: "GroundingChunk \<Rightarrow> Source option" where
  "retrieved_source gc =
     (case retrievedContext gc of
        Some rc \<Rightarrow>
          if truthy_string (rc_uri rc)
          then Some \<lparr>uri = or_empty (rc_uri rc), source_title = or_empty (rc_title rc),
                     source_content = rc_content rc\<rparr>
          else None
      | None \<Rightarrow> None)"

definition web_source :: "GroundingChunk \<Rightarrow> Source option" where
  "web_source gc =
     (case web gc of
        Some w \<Rightarrow>
          if truthy_string (web_uri w)
          then Some \<lparr>uri = or_empty (web_uri w), source_title = or_empty (web_title w),
                     source_content = None\<rparr>
          else None
      | None \<Rightarrow> None)"

definition grounding_source :: "GroundingChunk \<Rightarrow> Source option" where
  "grounding_source gc =
     (case retrieved_source gc of Some src \<Rightarrow> Some src | None \<Rightarrow> web_source gc)"

definition chunkSources :: "StreamChunk \<Rightarrow> Source list" where
  "chunkSources chunk =
     (case groundingChunks chunk of
        None \<Rightarrow> []
      | Some gcs \<Rightarrow> List.map_filter grounding_source gcs)"

text \<open>
  The loop of \<open>getChatResponse\<close> over the chunks that arrived: a chunk with a non-empty
  text extends \<open>fullText\<close> and is handed to \<open>onChunk\<close>; its sources are collected. The
  request (prompt, history, system instruction, image, search tool) goes to the remote
  model and is not part of this function; the stream is what came back. \<open>onChunk\<close>
  works on the state \<open>'st\<close> of the caller and may raise there.
\<close>

fun stream_loop ::
  "(jsstring \<Rightarrow> 'st \<Rightarrow> js_error + 'st) \<Rightarrow> StreamChunk list \<Rightarrow> jsstring \<Rightarrow> Source list \<Rightarrow> 'st
     \<Rightarrow> js_error + (jsstring \<times> Source list \<times> 'st)" where
  "stream_loop onChunk [] fullText allSources st = Inr (fullText, allSources, st)"
| "stream_loop onChunk (chunk # stream) fullText allSources st =
     (if truthy_string (chunk_text chunk) then
        (case onChunk (or_empty (chunk_text chunk)) st of
           Inl e \<Rightarrow> Inl e
         | Inr st' \<Rightarrow>
             stream_loop onChunk stream (fullText @ or_empty (chunk_text chunk))
               (allSources @ chunkSources chunk) st')
      else stream_loop onChunk stream fullText (allSources @ chunkSources chunk) st)"

text \<open>
  How the stream ended: it completed, or it (or the request) threw; \<open>getChatResponse\<close>
  rethrows an \<open>Error\<close> whose message \<open>handleApiError\<close> chose, carried here.
\<close>

datatype stream_end = Completed | Threw jsstring

definition getChatResponse ::
  "(jsstring \<Rightarrow> 'st \<Rightarrow> js_error + 'st) \<Rightarrow> StreamChunk list \<Rightarrow> stream_end \<Rightarrow> 'st
     \<Rightarrow> js_error + ((jsstring + jsstring \<times> Source list) \<times> 'st)" where
  "getChatResponse onChunk stream ending st =
     (case stream_loop onChunk stream [] [] st of
        Inl e \<Rightarrow> Inl e
      | Inr (fullText, allSources, st') \<Rightarrow>
          (case ending of
             Threw message \<Rightarrow> Inr (Inl message, st')
           | Completed \<Rightarrow> Inr (Inr (fullText, dedup_sources allSources), st')))"

section \<open>Response reconciliation (App.tsx, processResponse)\<close>

subsection \<open>Reading the parsed JSON\<close>

text \<open>
  \<open>v.key\<close> for a value other than \<open>null\<close>, for the keys the code reads (\<open>title\<close>,
  \<open>quiz\<close>, \<open>flashcards\<close>, \<open>slides\<close>; no prototype defines them): the last binding in
  an object, \<open>undefined\<close> (\<open>None\<close>) elsewhere. On \<open>null\<close> the read throws.
\<close>

definition get_prop :: "json \<Rightarrow> jsstring \<Rightarrow> json option" where
  "get_prop v key = (case v of JObj members \<Rightarrow> map_of (rev members) key | _ \<Rightarrow> None)"

text \<open>
  The truth value of a JSON value. A number is false when its double is zero: when the
  literal's value is zero or lies within \<open>2 ^ -1075\<close> of it, where the nearest double
  is zero.
\<close>

definition number_is_zero :: "int \<Rightarrow> int \<Rightarrow> bool" where
  "number_is_zero m e \<longleftrightarrow>
     (if 0 \<le> e then m = 0 else \<bar>m\<bar> * 2 ^ 1075 \<le> 10 ^ nat (- e))"

definition to_boolean :: "json \<Rightarrow> bool" where
  "to_boolean v =
     (case v of
        JNull \<Rightarrow> False
      | JBool b \<Rightarrow> b
      | JNum m e \<Rightarrow> \<not> number_is_zero m e
      | JStr str \<Rightarrow> str \<noteq> []
      | JArr _ \<Rightarrow> True
      | JObj _ \<Rightarrow> True)"

text \<open>\<open>x && Array.isArray(x) && x.length > 0\<close>, and the items then.\<close>

definition nonempty_array :: "json option \<Rightarrow> bool" where
  "nonempty_array x \<longleftrightarrow> (case x of Some (JArr (_ # _)) \<Rightarrow> True | _ \<Rightarrow> False)"

definition array_items :: "json option \<Rightarrow> json list" where
  "array_items x = (case x of Some (JArr items) \<Rightarrow> items | _ \<Rightarrow> [])"

text \<open>
  The string a template literal makes of a value. \<open>nts\<close> is the engine's
  \<open>Number::toString\<close> on a number given by mantissa and exponent; it depends on the
  double and is left open. An array joins its elements with commas, \<open>null\<close> elements
  as the empty string. An object answers with \<open>Object.prototype.toString\<close>, unless it
  has a member \<open>toString\<close> of its own: a parsed value is no function, \<open>valueOf\<close> gives
  no primitive either, and the conversion throws.
\<close>

fun ToString :: "(int \<Rightarrow> int \<Rightarrow> jsstring) \<Rightarrow> json \<Rightarrow> js_error + jsstring"
  and join_elements :: "(int \<Rightarrow> int \<Rightarrow> jsstring) \<Rightarrow> json list \<Rightarrow> js_error + jsstring"
where
  "ToString nts JNull = Inr (js ''null'')"
| "ToString nts (JBool b) = Inr (if b then js ''true'' else js ''false'')"
| "ToString nts (JNum m e) = Inr (nts m e)"
| "ToString nts (JStr str) = Inr str"
| "ToString nts (JArr items) = join_elements nts items"
| "ToString nts (JObj members) =
     (case map_of members (js ''toString'') of
        None \<Rightarrow> Inr (js ''[object Object]'')
      | Some _ \<Rightarrow> Inl TypeError)"
| "join_elements nts [] = Inr []"
| "join_elements nts [x] = (if x = JNull then Inr [] else ToString nts x)"
| "join_elements nts (x # y # ys) =
     (case (if x = JNull then Inr [] else ToString nts x) of
        Inl e \<Rightarrow> Inl e
      | Inr first \<Rightarrow>
         (case join_elements nts (y # ys) of
            Inl e \<Rightarrow> Inl e
          | Inr others \<Rightarrow> Inr (first @ 44 # others)))"

subsection \<open>The fenced block\<close>

text \<open>
  \<open>fullText.match(/```json\s*([\s\S]*?)\s*```/)\<close>: the pair of the whole match and of
  group 1, or \<open>None\<close>. The match starts at the first \<open>```json\<close> and ends with the first
  \<open>```\<close> behind it; the white space on both sides of what lies between goes to the two
  \<open>\s*\<close>, the rest is group 1.
\<close>

definition json_match :: "jsstring \<Rightarrow> (jsstring \<times> jsstring) option" where
  "json_match fullText =
     (case indexOf fullText (js ''```json'') of
        None \<Rightarrow> None
      | Some p \<Rightarrow>
         (case indexOf (drop (p + 7) fullText) (js ''```'') of
            None \<Rightarrow> None
          | Some q \<Rightarrow>
             Some (take (7 + q + 3) (drop p fullText),
                   trim (take q (drop (p + 7) fullText)))))"

text \<open>
  The spec's words for the same thing: the text contains an opening \<open>```json\<close> and a
  closing \<open>```\<close> behind it. (\<open>json_match_None_iff\<close> compares the two.)
\<close>

definition has_fenced_json :: "jsstring \<Rightarrow> bool" where
  "has_fenced_json text \<longleftrightarrow>
     (\<exists>pre inner post. text = pre @ js ''```json'' @ inner @ js ''```'' @ post)"

subsection \<open>Extraction of the study aids\<close>

record Reconciled =
  finalText :: jsstring
  newFlashcards :: "json list"
  newQuizItems :: "json list"
  newSlides :: "json list"
  studyAidTitle :: json
  newMode :: "study_mode option"

text \<open>
  Lines 266 to 303 of \<open>processResponse\<close>. \<open>newMode\<close> is the last \<open>setStudyMode\<close>
  call, if there was one. A \<open>SyntaxError\<close> of \<open>JSON.parse\<close> and the \<open>TypeError\<close> of
  reading \<open>title\<close> from \<open>null\<close> are caught by the inner \<open>try\<close> before anything was
  assigned. A \<open>TypeError\<close> of the template literal is caught there too, after the
  stripped (empty) text went to \<open>finalText\<close> and the aids to their variables.
\<close>

text \<open>\<open>parsedJson.title || ''\<close>\<close>

definition aid_title :: "json \<Rightarrow> json" where
  "aid_title parsedJson =
     (case get_prop parsedJson (js ''title'') of
        None \<Rightarrow> JStr []
      | Some t \<Rightarrow> if to_boolean t then t else JStr [])"

definition plain_text :: "jsstring \<Rightarrow> Reconciled" where
  "plain_text fullText =
     \<lparr>finalText = fullText, newFlashcards = [], newQuizItems = [], newSlides = [],
      studyAidTitle = JStr [], newMode = None\<rparr>"

definition extract_aids ::
  "(int \<Rightarrow> int \<Rightarrow> jsstring) \<Rightarrow> jsstring \<Rightarrow> jsstring \<Rightarrow> json \<Rightarrow> Reconciled" where
  "extract_aids nts fullText match0 parsedJson =
     (let title = aid_title parsedJson;
          quiz = get_prop parsedJson (js ''quiz'');
          cards = get_prop parsedJson (js ''flashcards'');
          deck = get_prop parsedJson (js ''slides'');
          mode1 = (if nonempty_array quiz then Some ModeQuiz else None);
          mode2 = (if nonempty_array cards then Some ModeFlashcards else mode1);
          mode3 = (if nonempty_array deck then Some ModeSlides else mode2);
          studyAidGenerated = (nonempty_array quiz \<or> nonempty_array cards \<or> nonempty_array deck);
          stripped = trim (replace_first fullText match0 [])
      in \<lparr>finalText =
             (if studyAidGenerated then
                (if stripped = [] then
                   (case ToString nts title of
                      Inl _ \<Rightarrow> stripped
                    | Inr name \<Rightarrow> js ''I've created the \"'' @ name @ js ''\" for you.'')
                 else stripped)
              else fullText),
          newFlashcards = (if nonempty_array cards then array_items cards else []),
          newQuizItems = (if nonempty_array quiz then array_items quiz else []),
          newSlides = (if nonempty_array deck then array_items deck else []),
          studyAidTitle = title,
          newMode = mode3\<rparr>)"

definition reconcile :: "(int \<Rightarrow> int \<Rightarrow> jsstring) \<Rightarrow> jsstring \<Rightarrow> Reconciled" where
  "reconcile nts fullText =
     (case json_match fullText of
        None \<Rightarrow> plain_text fullText
      | Some (match0, match1) \<Rightarrow>
         if match1 = [] then plain_text fullText
         else
           (case JSON_parse match1 of
              None \<Rightarrow> plain_text fullText
            | Some parsedJson \<Rightarrow>
               if parsedJson = JNull then plain_text fullText
               else extract_aids nts fullText match0 parsedJson))"

subsection \<open>Updates of the session list\<close>

text \<open>\<open>prevSessions.map(f)\<close> for an \<open>f\<close> that may throw.\<close>

fun map_result :: "('a \<Rightarrow> 'e + 'b) \<Rightarrow> 'a list \<Rightarrow> 'e + 'b list" where
  "map_result f [] = Inr []"
| "map_result f (x # xs) =
     (case f x of
        Inl e \<Rightarrow> Inl e
      | Inr y \<Rightarrow> (case map_result f xs of Inl e \<Rightarrow> Inl e | Inr ys \<Rightarrow> Inr (y # ys)))"

text \<open>\<open>ms[ms.length - 1]\<close>, \<open>undefined\<close> on the empty list.\<close>

definition last_message :: "Message list \<Rightarrow> Message option" where
  "last_message ms = (if ms = [] then None else Some (last ms))"

definition placeholderMessage :: "int \<Rightarrow> Message" where
  "placeholderMessage t =
     \<lparr>role = Some Assistant, content = [], msg_image = None, sources = Some [],
      timestamp = Some t, useWebSearch = None\<rparr>"

definition add_placeholder :: "jsstring \<Rightarrow> int \<Rightarrow> StudySession list \<Rightarrow> StudySession list" where
  "add_placeholder sessionId t prevSessions =
     map (\<lambda>s. if session_id s = sessionId
               then s\<lparr>messages := messages s @ [placeholderMessage t]\<rparr> else s) prevSessions"

text \<open>
  The update that \<open>onChunk\<close> queues. Reading \<open>role\<close> of the last message throws when the
  session has no message.
\<close>

definition onChunk_session :: "jsstring \<Rightarrow> jsstring \<Rightarrow> StudySession \<Rightarrow> js_error + StudySession" where
  "onChunk_session sessionId chunkText s =
     (if session_id s = sessionId then
        (case last_message (messages s) of
           None \<Rightarrow> Inl TypeError
         | Some lastMessage \<Rightarrow>
             if role lastMessage = Some Assistant then
               Inr (s\<lparr>messages := butlast (messages s) @
                        [lastMessage\<lparr>content := content lastMessage @ chunkText\<rparr>]\<rparr>)
             else Inr s)
      else Inr s)"

definition onChunk :: "jsstring \<Rightarrow> jsstring \<Rightarrow> StudySession list \<Rightarrow> js_error + StudySession list" where
  "onChunk sessionId chunkText prevSessions =
     map_result (onChunk_session sessionId chunkText) prevSessions"

text \<open>
  The final update (lines 305 to 323). Spreading an \<open>undefined\<close> last message gives an
  object with \<open>content\<close> and \<open>sources\<close> only.
\<close>

definition finalize_session ::
  "jsstring \<Rightarrow> Reconciled \<Rightarrow> Source list \<Rightarrow> int \<Rightarrow> StudySession \<Rightarrow> StudySession" where
  "finalize_session sessionId r srcs now s =
     (if session_id s = sessionId then
        s\<lparr>messages := butlast (messages s) @
             [(case last_message (messages s) of
                 None \<Rightarrow> \<lparr>role = None, content = finalText r, msg_image = None,
                           sources = Some srcs, timestamp = None, useWebSearch = None\<rparr>
               | Some lastMessage \<Rightarrow> lastMessage\<lparr>content := finalText r, sources := Some srcs\<rparr>)],
          flashcards := (if newFlashcards r \<noteq> [] then newFlashcards r else flashcards s),
          flashcardsTitle := (if newFlashcards r \<noteq> [] then studyAidTitle r else flashcardsTitle s),
          quizItems := (if newQuizItems r \<noteq> [] then newQuizItems r else quizItems s),
          quizTitle := (if newQuizItems r \<noteq> [] then studyAidTitle r else quizTitle s),
          slides := (if newSlides r \<noteq> [] then newSlides r else slides s),
          slidesTitle := (if newSlides r \<noteq> [] then studyAidTitle r else slidesTitle s),
          updatedAt := now\<rparr>
      else s)"

text \<open>The update of the \<open>catch\<close> block: the last message gives way to the error text.\<close>

definition error_session :: "jsstring \<Rightarrow> jsstring \<Rightarrow> int \<Rightarrow> StudySession \<Rightarrow> StudySession" where
  "error_session sessionId message now s =
     (if session_id s = sessionId then
        s\<lparr>messages := butlast (messages s) @
             [\<lparr>role = Some Assistant, content = message, msg_image = None, sources = None,
               timestamp = Some now, useWebSearch = None\<rparr>]\<rparr>
      else s)"

text \<open>
  A run of \<open>processResponse\<close> with no other update of the state in between: the
  placeholder at time \<open>t0\<close>, the chunks, then the reconciliation or the error message at
  time \<open>t1\<close>. \<open>Inl\<close> when an update of the session list raised.
\<close>

definition processResponse ::
  "(int \<Rightarrow> int \<Rightarrow> jsstring) \<Rightarrow> jsstring \<Rightarrow> StreamChunk list \<Rightarrow> stream_end \<Rightarrow> int \<Rightarrow> int
     \<Rightarrow> AppState \<Rightarrow> js_error + AppState" where
  "processResponse nts sessionId stream ending t0 t1 st =
     (case getChatResponse (onChunk sessionId) stream ending
             (add_placeholder sessionId t0 (sessions st)) of
        Inl e \<Rightarrow> Inl e
      | Inr (Inl message, ss) \<Rightarrow>
          Inr (st\<lparr>sessions := map (error_session sessionId message t1) ss,
                  notifications := notifications st @
                    [\<lparr>notification_title = js ''Error'', notification_message = message,
                      notification_type = NError\<rparr>],
                  isLoading := False\<rparr>)
      | Inr (Inr (fullText, srcs), ss) \<Rightarrow>
          Inr (st\<lparr>sessions := map (finalize_session sessionId (reconcile nts fullText) srcs t1) ss,
                  studyMode := (case newMode (reconcile nts fullText) of
                                  None \<Rightarrow> studyMode st
                                | Some m \<Rightarrow> m),
                  isLoading := False\<rparr>))"

section \<open>Session store (App.tsx)\<close>

text \<open>\<open>Partial<StudySession>\<close>: the keys that are present.\<close>

record PartialSession =
  p_id :: "jsstring option"
  p_title :: "jsstring option"
  p_createdAt :: "int option"
  p_updatedAt :: "int option"
  p_messages :: "Message list option"
  p_flashcards :: "json list option"
  p_flashcardsTitle :: "json option"
  p_quizItems :: "json list option"
  p_quizTitle :: "json option"
  p_slides :: "json list option"
  p_slidesTitle :: "json option"
  p_documentContext :: "jsstring option"
  p_documentSummary :: "jsstring option"

definition pick :: "'a option \<Rightarrow> 'a \<Rightarrow> 'a" where
  "pick new old = (case new of None \<Rightarrow> old | Some v \<Rightarrow> v)"

text \<open>\<open>{ ...s, ...update }\<close>\<close>

definition spread :: "StudySession \<Rightarrow> PartialSession \<Rightarrow> StudySession" where
  "spread s u =
     \<lparr>session_id = pick (p_id u) (session_id s),
      title = pick (p_title u) (title s),
      createdAt = pick (p_createdAt u) (createdAt s),
      updatedAt = pick (p_updatedAt u) (updatedAt s),
      messages = pick (p_messages u) (messages s),
      flashcards = pick (p_flashcards u) (flashcards s),
      flashcardsTitle = pick (p_flashcardsTitle u) (flashcardsTitle s),
      quizItems = pick (p_quizItems u) (quizItems s),
      quizTitle = pick (p_quizTitle u) (quizTitle s),
      slides = pick (p_slides u) (slides s),
      slidesTitle = pick (p_slidesTitle u) (slidesTitle s),
      documentContext = pick (p_documentContext u) (documentContext s),
      documentSummary = pick (p_documentSummary u) (documentSummary s)\<rparr>"

datatype session_update = Partial PartialSession | Transform "StudySession \<Rightarrow> StudySession"

text \<open>
  \<open>updateActiveSession(update)\<close> at time \<open>now\<close>. It returns at once when there is no
  active id or the id is the empty string.
\<close>

definition updateActiveSession :: "session_update \<Rightarrow> int \<Rightarrow> AppState \<Rightarrow> AppState" where
  "updateActiveSession update now st =
     (case activeSessionId st of
        None \<Rightarrow> st
      | Some active \<Rightarrow>
          if active = [] then st
          else st\<lparr>sessions :=
                 map (\<lambda>s. if session_id s = active
                           then (case update of
                                   Transform f \<Rightarrow> f s
                                 | Partial u \<Rightarrow> spread s u)\<lparr>updatedAt := now\<rparr>
                           else s)
                   (sessions st)\<rparr>)"

text \<open>\<open>sessions.find(s => s.id === activeSessionId) || null\<close>\<close>

definition activeSession :: "AppState \<Rightarrow> StudySession option" where
  "activeSession st =
     (case activeSessionId st of
        None \<Rightarrow> None
      | Some active \<Rightarrow> find (\<lambda>s. session_id s = active) (sessions st))"

text \<open>\<open>handleDeleteMessage\<close>: the messages from the index on are dropped.\<close>

definition handleDeleteMessage :: "nat \<Rightarrow> int \<Rightarrow> AppState \<Rightarrow> AppState" where
  "handleDeleteMessage messageIndex now st =
     (case activeSession st of
        None \<Rightarrow> st
      | Some _ \<Rightarrow>
          updateActiveSession (Transform (\<lambda>s. s\<lparr>messages := take messageIndex (messages s)\<rparr>)) now st)"

text \<open>
  The update in \<open>handleSendMessage\<close> that appends the user message (lines 357 to 368);
  the first message of a session gives it its title, cut after 40 code units.
\<close>

definition session_title :: "jsstring \<Rightarrow> jsstring" where
  "session_title titleContent =
     (if length titleContent > 40 then take 40 titleContent @ js ''...'' else titleContent)"

definition handleSendMessage_update ::
  "jsstring \<Rightarrow> Message \<Rightarrow> jsstring \<Rightarrow> StudySession list \<Rightarrow> StudySession list" where
  "handleSendMessage_update currentSessionId userMessage titleContent prev =
     map (\<lambda>s. if session_id s = currentSessionId
               then s\<lparr>messages := messages s @ [userMessage],
                      title := (if messages s = [] then session_title titleContent else title s)\<rparr>
               else s) prev"

text \<open>The update in \<open>handleFileUpload\<close> that stores the summary or the error text.\<close>

definition handleFileUpload_update ::
  "jsstring \<Rightarrow> jsstring \<Rightarrow> StudySession list \<Rightarrow> StudySession list" where
  "handleFileUpload_update newSessionId summary prev =
     map (\<lambda>s. if session_id s = newSessionId then s\<lparr>documentSummary := summary\<rparr> else s) prev"

text \<open>
  \<open>handleDeleteSession\<close>. \<open>[...remaining].sort((a, b) => b.updatedAt - a.updatedAt)\<close> is
  a stable sort by descending \<open>updatedAt\<close>.
\<close>

definition handleDeleteSession :: "jsstring \<Rightarrow> AppState \<Rightarrow> AppState" where
  "handleDeleteSession sessionId st =
     (let remaining = filter (\<lambda>s. session_id s \<noteq> sessionId) (sessions st)
      in st\<lparr>sessions := remaining,
             activeSessionId :=
               (if activeSessionId st = Some sessionId then
                  (case sort_key (\<lambda>s. - updatedAt s) remaining of
                     [] \<Rightarrow> None
                   | latestSession # _ \<Rightarrow> Some (session_id latestSession))
                else activeSessionId st)\<rparr>)"

text \<open>\<open>createNewSession\<close> (sessionService.ts) at time \<open>now\<close>.\<close>

definition createNewSession :: "int \<Rightarrow> StudySession" where
  "createNewSession now =
     \<lparr>session_id = show_int now, title = js ''New Study Session'', createdAt = now,
      updatedAt = now, messages = [], flashcards = [], flashcardsTitle = JStr [],
      quizItems = [], quizTitle = JStr [], slides = [], slidesTitle = JStr [],
      documentContext = [], documentSummary = []\<rparr>"

section \<open>Persistence (sessionService.ts)\<close>

text \<open>
  \<open>localStorage\<close>: the stored pairs and the capacity of the store in code units
  (the browser's choice, some five million in most, none at all where storage is
  switched off). \<open>setItem\<close> throws when the pairs would not fit.
\<close>

record LocalStorage =
  stored :: "(jsstring \<times> jsstring) list"
  quota :: nat

definition getItem :: "LocalStorage \<Rightarrow> jsstring \<Rightarrow> jsstring option" where
  "getItem store key = map_of (stored store) key"

definition storage_size :: "(jsstring \<times> jsstring) list \<Rightarrow> nat" where
  "storage_size pairs = sum_list (map (\<lambda>(k, v). length k + length v) pairs)"

definition setItem :: "LocalStorage \<Rightarrow> jsstring \<Rightarrow> jsstring \<Rightarrow> js_error + LocalStorage" where
  "setItem store key v =
     (if storage_size (Map_set (stored store) key v) \<le> quota store
      then Inr (store\<lparr>stored := Map_set (stored store) key v\<rparr>)
      else Inl QuotaExceededError)"

definition getStorageKey :: jsstring where
  "getStorageKey = js ''study-gpt-sessions''"

definition CURRENT_DATA_VERSION :: int where
  "CURRENT_DATA_VERSION = 1"

text \<open>
  The objects that \<open>JSON.stringify\<close> walks. A key whose value is \<open>undefined\<close> is left
  out. The order of the keys in an object follows the way the object was built, which a
  record does not keep; the order of the interface is taken.
\<close>

definition optional :: "jsstring \<Rightarrow> json option \<Rightarrow> (jsstring \<times> json) list" where
  "optional key v = (case v of None \<Rightarrow> [] | Some x \<Rightarrow> [(key, x)])"

definition Source_json :: "Source \<Rightarrow> json" where
  "Source_json src =
     JObj ([(js ''uri'', JStr (uri src)), (js ''title'', JStr (source_title src))]
           @ optional (js ''content'') (map_option JStr (source_content src)))"

definition role_json :: "role \<Rightarrow> json" where
  "role_json r = (case r of User \<Rightarrow> JStr (js ''user'') | Assistant \<Rightarrow> JStr (js ''assistant''))"

definition Message_json :: "Message \<Rightarrow> json" where
  "Message_json m =
     JObj (optional (js ''role'') (map_option role_json (role m))
           @ [(js ''content'', JStr (content m))]
           @ optional (js ''image'') (map_option JStr (msg_image m))
           @ optional (js ''sources'') (map_option (\<lambda>srcs. JArr (map Source_json srcs)) (sources m))
           @ optional (js ''timestamp'') (map_option (\<lambda>t. JNum t 0) (timestamp m))
           @ optional (js ''useWebSearch'') (map_option JBool (useWebSearch m)))"

definition StudySession_json :: "StudySession \<Rightarrow> json" where
  "StudySession_json s =
     JObj [(js ''id'', JStr (session_id s)),
           (js ''title'', JStr (title s)),
           (js ''createdAt'', JNum (createdAt s) 0),
           (js ''updatedAt'', JNum (updatedAt s) 0),
           (js ''messages'', JArr (map Message_json (messages s))),
           (js ''flashcards'', JArr (flashcards s)),
           (js ''flashcardsTitle'', flashcardsTitle s),
           (js ''quizItems'', JArr (quizItems s)),
           (js ''quizTitle'', quizTitle s),
           (js ''slides'', JArr (slides s)),
           (js ''slidesTitle'', slidesTitle s),
           (js ''documentContext'', JStr (documentContext s)),
           (js ''documentSummary'', JStr (documentSummary s))]"

text \<open>\<open>{ version: CURRENT_DATA_VERSION, sessions }\<close>\<close>

definition StoredData_json :: "StudySession list \<Rightarrow> json" where
  "StoredData_json session_list =
     JObj [(js ''version'', JNum CURRENT_DATA_VERSION 0),
           (js ''sessions'', JArr (map StudySession_json session_list))]"

text \<open>
  \<open>saveSessions\<close>: a write that throws is logged and the store stays as it was.
\<close>

definition saveSessions :: "StudySession list \<Rightarrow> LocalStorage \<Rightarrow> LocalStorage" where
  "saveSessions session_list store =
     (case setItem store getStorageKey (JSON_stringify (StoredData_json session_list)) of
        Inl _ \<Rightarrow> store
      | Inr store' \<Rightarrow> store')"

text \<open>
  \<open>migrateData\<close>. The stored version is compared with the current one by \<open>===\<close>,
  \<open><\<close> and \<open>>\<close>; one of the three holds for every number, and the sessions are
  returned in each case. For a version that is not a number the engine converts it:
  \<open>null\<close> and \<open>false\<close> to 0, \<open>true\<close> to 1, an object to NaN, and a string or an array
  as \<open>tn\<close> says (not a number, equal to the current version, or another number). A
  converted value equal to the current version is not \<open>===\<close> to it, and NaN compares
  with nothing: these fall through to the empty list.
\<close>

datatype number_class = NotANumber | CurrentVersion | OtherNumber

definition version_comparable :: "(json \<Rightarrow> number_class) \<Rightarrow> json \<Rightarrow> bool" where
  "version_comparable tn storedVersion =
     (case storedVersion of
        JNum m e \<Rightarrow> True
      | JNull \<Rightarrow> CURRENT_DATA_VERSION \<noteq> 0
      | JBool b \<Rightarrow> CURRENT_DATA_VERSION \<noteq> (if b then 1 else 0)
      | JObj members \<Rightarrow> False
      | _ \<Rightarrow> tn storedVersion = OtherNumber)"

definition migrateData :: "(json \<Rightarrow> number_class) \<Rightarrow> json \<Rightarrow> json" where
  "migrateData tn data =
     (if \<not> to_boolean data then JArr []
      else
        (case data of
           JArr legacy \<Rightarrow> data
         | JObj members \<Rightarrow>
             (case get_prop data (js ''version'') of
                None \<Rightarrow> JArr []
              | Some storedVersion \<Rightarrow>
                  (case get_prop data (js ''sessions'') of
                     None \<Rightarrow> JArr []
                   | Some stored_sessions \<Rightarrow>
                       if version_comparable tn storedVersion then stored_sessions
                       else JArr []))
         | _ \<Rightarrow> JArr []))"

text \<open>
  \<open>loadSessions\<close> at time \<open>now\<close>: what it returns and the store afterwards. The result
  is the stored array as it is; nothing checks the shape of its elements. When the text
  does not parse, a copy of it is written under a backup key, if the store takes it.
\<close>

definition loadSessions ::
  "(json \<Rightarrow> number_class) \<Rightarrow> int \<Rightarrow> LocalStorage \<Rightarrow> json list \<times> LocalStorage" where
  "loadSessions tn now store =
     (case getItem store getStorageKey of
        None \<Rightarrow> ([], store)
      | Some serializedSessions \<Rightarrow>
          (case JSON_parse serializedSessions of
             None \<Rightarrow>
               (if serializedSessions \<noteq> [] then
                  (case setItem store (getStorageKey @ js ''-backup-'' @ show_int now)
                          serializedSessions of
                     Inl _ \<Rightarrow> ([], store)
                   | Inr store' \<Rightarrow> ([], store'))
                else ([], store))
           | Some data \<Rightarrow>
               (case migrateData tn data of
                  JArr migratedSessions \<Rightarrow> (migratedSessions, store)
                | _ \<Rightarrow> ([], store))))"

section \<open>Voice commands (useVoiceCommands.ts, processTranscript)\<close>

text \<open>
  \<open>staticCommands\<close> is an object literal: its members, each with the action it names.
  A read \<open>staticCommands[key]\<close> finds an own member or goes on to \<open>Object.prototype\<close>.
  The key is in lower case, and two names of \<open>Object.prototype\<close> are: \<open>constructor\<close>,
  a function that does nothing here, and \<open>__proto__\<close>, an object that cannot be called.
\<close>

datatype 'a property = Own 'a | Builtin_function | Prototype_object

definition read_command :: "(jsstring \<times> 'a) list \<Rightarrow> jsstring \<Rightarrow> 'a property option" where
  "read_command staticCommands key =
     (case map_of (rev staticCommands) key of
        Some a \<Rightarrow> Some (Own a)
      | None \<Rightarrow>
          if key = js ''constructor'' then Some Builtin_function
          else if key = js ''__proto__'' then Some Prototype_object
          else None)"

record 'b DynamicCommand =
  cmd_keywords :: "jsstring list"
  cmd_action :: 'b

text \<open>What \<open>processTranscript\<close> does, in order.\<close>

datatype ('a, 'b) voice_event =
    StaticAction 'a
  | BuiltinCall
  | DynamicAction 'b jsstring
  | StopListening

text \<open>
  The two loops over the commands and their keywords: the first keyword that, with a
  space behind it, starts \<open>lowerCaseText\<close>; the argument is cut from \<open>text\<close>.
\<close>

fun match_keywords :: "jsstring list \<Rightarrow> jsstring \<Rightarrow> jsstring \<Rightarrow> jsstring option" where
  "match_keywords [] lowerCaseText text = None"
| "match_keywords (keyword # kws) lowerCaseText text =
     (if startsWith lowerCaseText (keyword @ [32])
      then Some (drop (length (keyword @ [32])) text)
      else match_keywords kws lowerCaseText text)"

fun match_dynamic ::
  "'b DynamicCommand list \<Rightarrow> jsstring \<Rightarrow> jsstring \<Rightarrow> ('b \<times> jsstring) option" where
  "match_dynamic [] lowerCaseText text = None"
| "match_dynamic (command # commands) lowerCaseText text =
     (case match_keywords (cmd_keywords command) lowerCaseText text of
        Some capturedText \<Rightarrow> Some (cmd_action command, capturedText)
      | None \<Rightarrow> match_dynamic commands lowerCaseText text)"

definition processTranscript ::
  "(jsstring \<Rightarrow> jsstring) \<Rightarrow> (jsstring \<times> 'a) list \<Rightarrow> 'b DynamicCommand list \<Rightarrow> jsstring
     \<Rightarrow> js_error + ('a, 'b) voice_event list" where
  "processTranscript lower staticCommands dynamicCommands text =
     (let lowerCaseText = trim (toLowerCase lower text) in
      case read_command staticCommands lowerCaseText of
        Some (Own a) \<Rightarrow> Inr [StaticAction a, StopListening]
      | Some Builtin_function \<Rightarrow> Inr [BuiltinCall, StopListening]
      | Some Prototype_object \<Rightarrow> Inl TypeError
      | None \<Rightarrow>
          (case match_dynamic dynamicCommands lowerCaseText text of
             Some (act, capturedText) \<Rightarrow> Inr [DynamicAction act capturedText, StopListening]
           | None \<Rightarrow>
               if lowerCaseText = js ''stop listening'' \<or> lowerCaseText = js ''cancel''
               then Inr [StopListening]
               else Inr []))"

text \<open>\<open>stopListening\<close> on the listening flag: the session ends if it was on.\<close>

definition stopListening :: "bool \<Rightarrow> bool" where
  "stopListening isListening = (if isListening then False else isListening)"

text \<open>The tables that \<open>AppContent\<close> passes (App.tsx, lines 472 to 494).\<close>

datatype static_action =
    HandleNewSession | ShowFlashcards | OpenQuiz | ViewSlides | GoToChat
  | NavigateNext | NavigatePrev

datatype dynamic_action = HandleSendMessage

definition voiceCommands :: "(jsstring \<times> static_action) list" where
  "voiceCommands =
     [(js ''new session'', HandleNewSession),
      (js ''start new chat'', HandleNewSession),
      (js ''start over'', HandleNewSession),
      (js ''show flashcards'', ShowFlashcards),
      (js ''open quiz'', OpenQuiz),
      (js ''view slides'', ViewSlides),
      (js ''show presentation'', ViewSlides),
      (js ''go to chat'', GoToChat),
      (js ''next'', NavigateNext),
      (js ''next card'', NavigateNext),
      (js ''next slide'', NavigateNext),
      (js ''previous'', NavigatePrev),
      (js ''previous card'', NavigatePrev),
      (js ''previous slide'', NavigatePrev)]"

definition dynamicVoiceCommands :: "dynamic_action DynamicCommand list" where
  "dynamicVoiceCommands =
     [\<lparr>cmd_keywords = [js ''ask'', js ''say'', js ''tell me'', js ''search for'', js ''what is'',
                   js ''who is'', js ''explain''],
       cmd_action = HandleSendMessage\<rparr>]"

section \<open>Notions for stating what a response does\<close>

text \<open>The text and the sources that a stream carries, in arrival order.\<close>

definition stream_text :: "StreamChunk list \<Rightarrow> jsstring" where
  "stream_text stream = concat (map (\<lambda>chunk. or_empty (chunk_text chunk)) stream)"

definition stream_sources :: "StreamChunk list \<Rightarrow> Source list" where
  "stream_sources stream = concat (map chunkSources stream)"

text \<open>
  A session takes the text \<open>t\<close> into its last message; a session is \<open>streaming\<close> when
  it is not the target or its last message is an assistant message; the session after a
  whole response, with its reconciled message.
\<close>

definition append_content :: "jsstring \<Rightarrow> jsstring \<Rightarrow> StudySession \<Rightarrow> StudySession" where
  "append_content sessionId t s =
     (if session_id s = sessionId
      then s\<lparr>messages := butlast (messages s) @
                [(last (messages s))\<lparr>content := content (last (messages s)) @ t\<rparr>]\<rparr>
      else s)"

definition streaming :: "jsstring \<Rightarrow> StudySession \<Rightarrow> bool" where
  "streaming sessionId s \<longleftrightarrow>
     session_id s \<noteq> sessionId \<or> (messages s \<noteq> [] \<and> role (last (messages s)) = Some Assistant)"

definition reconciled_session ::
  "jsstring \<Rightarrow> Reconciled \<Rightarrow> Source list \<Rightarrow> int \<Rightarrow> int \<Rightarrow> StudySession \<Rightarrow> StudySession" where
  "reconciled_session sessionId r srcs t0 t1 s =
     (if session_id s = sessionId then
        s\<lparr>messages := messages s @
             [(placeholderMessage t0)\<lparr>content := finalText r, sources := Some srcs\<rparr>],
          flashcards := (if newFlashcards r \<noteq> [] then newFlashcards r else flashcards s),
          flashcardsTitle := (if newFlashcards r \<noteq> [] then studyAidTitle r else flashcardsTitle s),
          quizItems := (if newQuizItems r \<noteq> [] then newQuizItems r else quizItems s),
          quizTitle := (if newQuizItems r \<noteq> [] then studyAidTitle r else quizTitle s),
          slides := (if newSlides r \<noteq> [] then newSlides r else slides s),
          slidesTitle := (if newSlides r \<noteq> [] then studyAidTitle r else slidesTitle s),
          updatedAt := t1\<rparr>
      else s)"

subsection \<open>Notions for the round trip through the parser\<close>

text \<open>
  What may follow a value inside a text that \<open>JSON.stringify\<close> wrote: nothing, a comma,
  or a closing bracket or brace.
\<close>

definition terminated :: "jsstring \<Rightarrow> bool" where
  "terminated rest \<longleftrightarrow> rest = [] \<or> hd rest = 44 \<or> hd rest = 93 \<or> hd rest = 125"

text \<open>The code units that a written value can begin with.\<close>

definition value_start :: "code_unit \<Rightarrow> bool" where
  "value_start c \<longleftrightarrow>
     c = 110 \<or> c = 116 \<or> c = 102 \<or> c = 45 \<or> is_digit c \<or> c = 34 \<or> c = 91 \<or> c = 123"

text \<open>A depth of recursion that suffices for \<open>parse_value\<close> to read a value back.\<close>

fun need :: "json \<Rightarrow> nat"
  and need_elements :: "json list \<Rightarrow> nat"
  and need_members :: "(jsstring \<times> json) list \<Rightarrow> nat"
where
  "need JNull = 1"
| "need (JBool b) = 1"
| "need (JNum m e) = 1"
| "need (JStr str) = 1"
| "need (JArr items) = Suc (need_elements items)"
| "need (JObj members) = Suc (need_members members)"
| "need_elements [] = 0"
| "need_elements (x # xs) = Suc (max (need x) (need_elements xs))"
| "need_members [] = 0"
| "need_members ((k, v) # ms) = Suc (max (need v) (need_members ms))"

(*DEFS_END*)
section \<open>Properties of the model\<close>

subsection \<open>Properties of the insertion-ordered map\<close>

lemma Map_set_keys:
  "map fst (Map_set m k v) = (if k \<in> set (map fst m) then map fst m else map fst m @ [k])"
  by (induction m k v rule: Map_set.induct) auto

lemma Map_set_map_of: "map_of (Map_set m k v) = (map_of m)(k \<mapsto> v)"
  by (induction m k v rule: Map_set.induct) (auto simp: fun_eq_iff)

lemma new_Map_snoc: "new_Map (es @ [(k, v)]) = Map_set (new_Map es) k v"
  by (simp add: new_Map_def)

lemma new_Map_keys: "map fst (new_Map es) = rev (remdups (rev (map fst es)))"
proof (induction es rule: rev_induct)
  case Nil
  show ?case by (simp add: new_Map_def)
next
  case (snoc e es)
  obtain k v where e: "e = (k, v)" by (cases e)
  have "set (map fst (new_Map es)) = set (map fst es)"
    using snoc.IH by simp
  then show ?case
    using snoc.IH by (simp add: e new_Map_snoc Map_set_keys)
qed

lemma new_Map_map_of: "map_of (new_Map es) = map_of (rev es)"
proof (induction es rule: rev_induct)
  case Nil
  show ?case by (simp add: new_Map_def)
next
  case (snoc e es)
  obtain k v where e: "e = (k, v)" by (cases e)
  show ?case
    by (simp add: e new_Map_snoc Map_set_map_of snoc.IH fun_eq_iff)
qed

lemma new_Map_distinct: "distinct (map fst (new_Map es))"
  by (simp add: new_Map_keys)

lemma new_Map_id: "distinct (map fst es) \<Longrightarrow> new_Map es = es"
proof (induction es rule: rev_induct)
  case Nil
  show ?case by (simp add: new_Map_def)
next
  case (snoc e es)
  obtain k v where e: "e = (k, v)" by (cases e)
  have fresh: "k \<notin> set (map fst es)" and d: "distinct (map fst es)"
    using snoc.prems by (auto simp: e)
  have app: "k \<notin> set (map fst m) \<Longrightarrow> Map_set m k v = m @ [(k, v)]" for m :: "('a \<times> 'b) list"
    by (induction m) auto
  show ?case
    using snoc.IH [OF d] fresh by (simp add: e new_Map_snoc app)
qed

lemma map_of_rev_entries:
  "map_of (rev (map (\<lambda>s. (uri s, s)) xs)) k = Some e \<Longrightarrow>
     uri e = k \<and> e = last (filter (\<lambda>s. uri s = k) xs)"
  by (induction xs rule: rev_induct) (auto split: if_splits)

lemma dedup_sources_entry:
  assumes "e \<in> set (dedup_sources xs)"
  shows "e = last (filter (\<lambda>s. uri s = uri e) xs)"
proof -
  let ?es = "map (\<lambda>s. (uri s, s)) xs"
  from assms obtain k where mem: "(k, e) \<in> set (new_Map ?es)"
    by (auto simp: dedup_sources_def Map_values_def)
  have "map_of (new_Map ?es) k = Some e"
    using mem new_Map_distinct [of ?es] by simp
  then have "map_of (rev ?es) k = Some e"
    by (simp add: new_Map_map_of)
  then show ?thesis
    using map_of_rev_entries by blast
qed

lemma dedup_sources_uris:
  "map uri (dedup_sources xs) = rev (remdups (rev (map uri xs)))"
proof -
  let ?es = "map (\<lambda>s. (uri s, s)) xs"
  have sub: "set m \<subseteq> set ?es \<Longrightarrow> map uri (map snd m) = map fst m"
    for m :: "(jsstring \<times> Source) list"
    by (induction m) auto
  have "set (new_Map ?es) \<subseteq> set ?es"
  proof
    fix p assume p: "p \<in> set (new_Map ?es)"
    obtain k e where ke: "p = (k, e)" by (cases p)
    have "map_of (new_Map ?es) k = Some e"
      using p ke new_Map_distinct [of ?es] by simp
    then have "map_of (rev ?es) k = Some e"
      by (simp add: new_Map_map_of)
    then have "(k, e) \<in> set (rev ?es)"
      by (rule map_of_SomeD)
    then show "p \<in> set ?es" by (simp add: ke)
  qed
  then have "map uri (dedup_sources xs) = map fst (new_Map ?es)"
    unfolding dedup_sources_def Map_values_def by (rule sub)
  then show ?thesis
    by (simp add: new_Map_keys comp_def)
qed

subsection \<open>Deleting a session\<close>

lemma sort_key_head_max:
  assumes "sort_key (\<lambda>s. - updatedAt s) xs = m # rest"
  shows "m \<in> set xs \<and> (\<forall>s \<in> set xs. updatedAt s \<le> updatedAt m)"
proof -
  have mem: "set (m # rest) = set xs"
    using assms set_sort [of "\<lambda>s. - updatedAt s" xs] by simp
  have "sorted (map (\<lambda>s. - updatedAt s) (m # rest))"
    using assms sorted_sort_key [of "\<lambda>s. - updatedAt s" xs] by simp
  then have "\<forall>s \<in> set rest. - updatedAt m \<le> - updatedAt s"
    by simp
  then have "\<forall>s \<in> set (m # rest). updatedAt s \<le> updatedAt m"
    by auto
  then show ?thesis
    using mem by auto
qed

lemma filter_remove1_distinct:
  "distinct (map f xs) \<Longrightarrow> x \<in> set xs \<Longrightarrow> filter (\<lambda>s. f s \<noteq> f x) xs = remove1 x xs"
proof (induction xs)
  case Nil
  then show ?case by simp
next
  case (Cons a xs)
  show ?case
  proof (cases "a = x")
    case True
    then have "f x \<notin> f ` set xs"
      using Cons.prems by simp
    then have "\<forall>s \<in> set xs. f s \<noteq> f x"
      by (metis imageI)
    then have "filter (\<lambda>s. f s \<noteq> f x) xs = xs"
      by (simp add: filter_id_conv)
    then show ?thesis using True by simp
  next
    case False
    then have "x \<in> set xs" using Cons.prems by simp
    moreover have "f a \<noteq> f x" using Cons.prems False \<open>x \<in> set xs\<close> by auto
    ultimately show ?thesis using Cons False by simp
  qed
qed

lemma handleDeleteSession_sessions:
  "sessions (handleDeleteSession sessionId st)
     = filter (\<lambda>s. session_id s \<noteq> sessionId) (sessions st)"
  by (simp add: handleDeleteSession_def Let_def)

lemma handleDeleteSession_other:
  "activeSessionId st \<noteq> Some sessionId \<Longrightarrow>
     activeSessionId (handleDeleteSession sessionId st) = activeSessionId st"
  by (simp add: handleDeleteSession_def Let_def)

lemma handleDeleteSession_latest:
  assumes act: "activeSessionId st = Some sessionId"
  shows "if sessions (handleDeleteSession sessionId st) = []
         then activeSessionId (handleDeleteSession sessionId st) = None
         else \<exists>m \<in> set (sessions (handleDeleteSession sessionId st)).
                activeSessionId (handleDeleteSession sessionId st) = Some (session_id m)
                \<and> (\<forall>s \<in> set (sessions (handleDeleteSession sessionId st)).
                      updatedAt s \<le> updatedAt m)"
proof -
  let ?rem = "filter (\<lambda>s. session_id s \<noteq> sessionId) (sessions st)"
  show ?thesis
  proof (cases "sort_key (\<lambda>s. - updatedAt s) ?rem")
    case Nil
    then have "?rem = []"
      using length_sort [of "\<lambda>s. - updatedAt s" ?rem] by (metis length_0_conv)
    then show ?thesis
      using act by (simp add: handleDeleteSession_def Let_def)
  next
    case (Cons m rest)
    have "activeSessionId (handleDeleteSession sessionId st) = Some (session_id m)"
      using act Cons by (simp add: handleDeleteSession_def Let_def)
    moreover have "?rem \<noteq> []" using Cons by auto
    ultimately show ?thesis
      using sort_key_head_max [OF Cons] by (auto simp: handleDeleteSession_sessions)
  qed
qed

lemma handleDeleteSession_two:
  assumes two: "sessions st = [a, b]" and ne: "session_id a \<noteq> session_id b"
    and act: "activeSessionId st = Some sessionId"
  shows "(sessionId = session_id a \<longrightarrow>
            sessions (handleDeleteSession sessionId st) = [b]
            \<and> activeSessionId (handleDeleteSession sessionId st) = Some (session_id b))
         \<and> (sessionId = session_id b \<longrightarrow>
            sessions (handleDeleteSession sessionId st) = [a]
            \<and> activeSessionId (handleDeleteSession sessionId st) = Some (session_id a))"
  using two ne act by (simp add: handleDeleteSession_def Let_def)

subsection \<open>Chunk updates that change nothing\<close>

lemma map_result_all_Inr: "(\<And>x. x \<in> set xs \<Longrightarrow> f x = Inr x) \<Longrightarrow> map_result f xs = Inr xs"
  by (induction xs) auto

lemma onChunk_unknown_session:
  "sessionId \<notin> session_id ` set prevSessions \<Longrightarrow>
     onChunk sessionId chunkText prevSessions = Inr prevSessions"
  unfolding onChunk_def
  by (rule map_result_all_Inr) (auto simp: onChunk_session_def)

lemma onChunk_session_not_assistant:
  "messages s \<noteq> [] \<Longrightarrow> role (last (messages s)) \<noteq> Some Assistant \<Longrightarrow>
     onChunk_session sessionId chunkText s = Inr s"
  by (simp add: onChunk_session_def last_message_def)

subsection \<open>The chunk loop\<close>

lemma map_result_map: "(\<And>x. x \<in> set xs \<Longrightarrow> f x = Inr (g x)) \<Longrightarrow> map_result f xs = Inr (map g xs)"
  by (induction xs) auto

lemma onChunk_streaming:
  assumes "\<forall>s \<in> set ss. streaming sessionId s"
  shows "onChunk sessionId t ss = Inr (map (append_content sessionId t) ss)"
  unfolding onChunk_def
proof (rule map_result_map)
  fix s assume "s \<in> set ss"
  then have "streaming sessionId s" using assms by blast
  then show "onChunk_session sessionId t s = Inr (append_content sessionId t s)"
    by (auto simp: streaming_def onChunk_session_def append_content_def last_message_def)
qed

lemma streaming_append_content:
  "streaming sessionId s \<Longrightarrow> streaming sessionId (append_content sessionId t s)"
  by (auto simp: streaming_def append_content_def)

lemma append_content_append:
  "streaming sessionId s \<Longrightarrow>
     append_content sessionId t2 (append_content sessionId t1 s) = append_content sessionId (t1 @ t2) s"
  by (auto simp: streaming_def append_content_def)

lemma append_content_Nil:
  "streaming sessionId s \<Longrightarrow> append_content sessionId [] s = s"
  by (auto simp: streaming_def append_content_def)

lemma truthy_or_empty: "\<not> truthy_string x \<Longrightarrow> or_empty x = []"
  by (auto simp: truthy_string_def or_empty_def split: option.splits)

lemma stream_loop_sessions:
  assumes "\<forall>s \<in> set ss. streaming sessionId s"
  shows "stream_loop (onChunk sessionId) stream fullText allSources ss
           = Inr (fullText @ stream_text stream, allSources @ stream_sources stream,
                  map (append_content sessionId (stream_text stream)) ss)"
  using assms
proof (induction stream arbitrary: fullText allSources ss)
  case Nil
  have "map (append_content sessionId []) ss = ss"
    using Nil by (intro map_idI) (simp add: append_content_Nil)
  then show ?case
    by (simp add: stream_text_def stream_sources_def)
next
  case (Cons chunk stream)
  let ?t = "or_empty (chunk_text chunk)"
  have inv': "\<forall>s \<in> set (map (append_content sessionId ?t) ss). streaming sessionId s"
    using Cons.prems by (auto intro: streaming_append_content)
  have comp: "map (append_content sessionId (stream_text stream)) (map (append_content sessionId ?t) ss)
                = map (append_content sessionId (?t @ stream_text stream)) ss"
    using Cons.prems by (simp add: append_content_append)
  have st: "stream_text (chunk # stream) = ?t @ stream_text stream"
    and so: "stream_sources (chunk # stream) = chunkSources chunk @ stream_sources stream"
    by (simp_all add: stream_text_def stream_sources_def)
  show ?case
  proof (cases "truthy_string (chunk_text chunk)")
    case True
    have "stream_loop (onChunk sessionId) (chunk # stream) fullText allSources ss
          = stream_loop (onChunk sessionId) stream (fullText @ ?t)
              (allSources @ chunkSources chunk) (map (append_content sessionId ?t) ss)"
      using True onChunk_streaming [OF Cons.prems, of ?t] by simp
    also have "\<dots> = Inr ((fullText @ ?t) @ stream_text stream,
                  (allSources @ chunkSources chunk) @ stream_sources stream,
                  map (append_content sessionId (stream_text stream))
                    (map (append_content sessionId ?t) ss))"
      by (rule Cons.IH [OF inv'])
    finally show ?thesis
      by (simp only: comp st so append_assoc)
  next
    case False
    then have e: "?t = []" by (rule truthy_or_empty)
    have "stream_loop (onChunk sessionId) (chunk # stream) fullText allSources ss
          = stream_loop (onChunk sessionId) stream fullText
              (allSources @ chunkSources chunk) ss"
      using False by simp
    also have "\<dots> = Inr (fullText @ stream_text stream,
                  (allSources @ chunkSources chunk) @ stream_sources stream,
                  map (append_content sessionId (stream_text stream)) ss)"
      by (rule Cons.IH [OF Cons.prems])
    finally show ?thesis
      by (simp add: st so e)
  qed
qed

lemma streaming_placeholder:
  "streaming sessionId (if session_id s = sessionId
       then s\<lparr>messages := messages s @ [placeholderMessage t0]\<rparr> else s)"
  by (simp add: streaming_def placeholderMessage_def)

lemma streaming_add_placeholder:
  "\<forall>s \<in> set (add_placeholder sessionId t0 ss). streaming sessionId s"
  unfolding add_placeholder_def set_map
  by (rule ballI, erule imageE) (simp only: streaming_placeholder)

lemma last_message_snoc: "last_message (ms @ [m]) = Some m"
  by (simp add: last_message_def)

lemma finalize_after_stream:
  "finalize_session sessionId r srcs t1
     (append_content sessionId t (if session_id s = sessionId
               then s\<lparr>messages := messages s @ [placeholderMessage t0]\<rparr> else s))
   = reconciled_session sessionId r srcs t0 t1 s"
proof (cases "session_id s = sessionId")
  case True
  let ?s2 = "s\<lparr>messages := messages s @ [(placeholderMessage t0)\<lparr>content := t\<rparr>]\<rparr>"
  have a: "append_content sessionId t (if session_id s = sessionId
               then s\<lparr>messages := messages s @ [placeholderMessage t0]\<rparr> else s) = ?s2"
    using True by (simp add: append_content_def placeholderMessage_def)
  have b: "finalize_session sessionId r srcs t1 ?s2 = reconciled_session sessionId r srcs t0 t1 s"
    using True
    by (simp add: finalize_session_def reconciled_session_def last_message_snoc
        placeholderMessage_def split del: if_split cong: if_cong)
  show ?thesis
    by (simp only: a b)
next
  case False
  then show ?thesis
    by (simp add: finalize_session_def append_content_def reconciled_session_def
        split del: if_split)
qed

lemma processResponse_completed:
  "processResponse nts sessionId stream Completed t0 t1 st
     = Inr (st\<lparr>sessions :=
               map (reconciled_session sessionId (reconcile nts (stream_text stream))
                      (dedup_sources (stream_sources stream)) t0 t1) (sessions st),
             studyMode := (case newMode (reconcile nts (stream_text stream)) of
                             None \<Rightarrow> studyMode st
                           | Some m \<Rightarrow> m),
             isLoading := False\<rparr>)"
proof -
  have m: "map (finalize_session sessionId r srcs t1)
          (map (append_content sessionId t) (add_placeholder sessionId t0 ss))
        = map (reconciled_session sessionId r srcs t0 t1) ss" for r srcs t ss
    by (simp add: add_placeholder_def finalize_after_stream comp_def)
  have g: "getChatResponse (onChunk sessionId) stream Completed
             (add_placeholder sessionId t0 (sessions st))
           = Inr (Inr (stream_text stream, dedup_sources (stream_sources stream)),
                  map (append_content sessionId (stream_text stream))
                    (add_placeholder sessionId t0 (sessions st)))"
    by (simp add: getChatResponse_def stream_loop_sessions [OF streaming_add_placeholder])
  show ?thesis
    unfolding processResponse_def g by (simp add: m del: map_map)
qed

subsection \<open>Substring search and the fenced block\<close>

lemma startsWith_append: "startsWith (pat @ post) pat"
  by (simp add: startsWith_def)

lemma startsWith_split: "startsWith s pat \<Longrightarrow> s = pat @ drop (length pat) s"
  by (metis append_take_drop_id startsWith_def)

lemma indexOf_Some_split:
  "indexOf s pat = Some i \<Longrightarrow> s = take i s @ pat @ drop (i + length pat) s"
proof (induction s arbitrary: i)
  case Nil
  then show ?case by (simp split: if_splits)
next
  case (Cons c cs)
  show ?case
  proof (cases "startsWith (c # cs) pat")
    case True
    then have "i = 0" using Cons.prems by simp
    then show ?thesis using startsWith_split [OF True] by simp
  next
    case False
    then obtain j where j: "indexOf cs pat = Some j" "i = Suc j"
      using Cons.prems by auto
    then show ?thesis using Cons.IH [OF j(1)] by simp
  qed
qed

lemma indexOf_startsWith: "startsWith s pat \<Longrightarrow> indexOf s pat = Some 0"
  by (cases s) (simp_all add: startsWith_def)

lemma indexOf_occurrence:
  "\<exists>i. indexOf (pre @ pat @ post) pat = Some i \<and> i \<le> length pre"
proof (induction pre)
  case Nil
  show ?case
    using indexOf_startsWith [OF startsWith_append] by simp
next
  case (Cons c pre)
  then obtain i where "indexOf (pre @ pat @ post) pat = Some i" "i \<le> length pre"
    by blast
  then show ?case by simp
qed

lemma json_match_None_iff: "json_match text = None \<longleftrightarrow> \<not> has_fenced_json text"
proof
  assume none: "json_match text = None"
  show "\<not> has_fenced_json text"
  proof
    assume "has_fenced_json text"
    then obtain pre inner post where
      t: "text = pre @ js ''```json'' @ inner @ js ''```'' @ post"
      by (auto simp: has_fenced_json_def)
    obtain p where p: "indexOf text (js ''```json'') = Some p" "p \<le> length pre"
      using indexOf_occurrence [of pre "js ''```json''" "inner @ js ''```'' @ post"] t by auto
    have len: "length (js ''```json'') = 7" by (simp add: js_def)
    have "drop (p + 7) text = drop (p + 7) (pre @ js ''```json'' @ inner) @ js ''```'' @ post"
      using t p(2) len by simp
    then obtain q where "indexOf (drop (p + 7) text) (js ''```'') = Some q"
      using indexOf_occurrence [of "drop (p + 7) (pre @ js ''```json'' @ inner)" "js ''```''" post]
      by auto
    then show False
      using none p(1) by (simp add: json_match_def)
  qed
next
  assume nf: "\<not> has_fenced_json text"
  show "json_match text = None"
  proof (rule ccontr)
    assume "json_match text \<noteq> None"
    then obtain p q where p: "indexOf text (js ''```json'') = Some p"
      and q: "indexOf (drop (p + 7) text) (js ''```'') = Some q"
      by (auto simp: json_match_def split: option.splits)
    have len: "length (js ''```json'') = 7" by (simp add: js_def)
    have "text = take p text @ js ''```json'' @ drop (p + 7) text"
      using indexOf_Some_split [OF p] len by simp
    moreover have "drop (p + 7) text = take q (drop (p + 7) text) @ js ''```'' @
                     drop (q + length (js ''```'')) (drop (p + 7) text)"
      by (rule indexOf_Some_split [OF q])
    ultimately have "has_fenced_json text"
      unfolding has_fenced_json_def by metis
    then show False using nf by simp
  qed
qed

lemma JSON_parse_Nil: "JSON_parse [] = None"
  by (simp add: JSON_parse_def skip_ws_def)

lemma reconciled_session_plain:
  "reconciled_session sessionId (plain_text fullText) srcs t0 t1 s
     = (if session_id s = sessionId
        then s\<lparr>messages := messages s @
                 [(placeholderMessage t0)\<lparr>content := fullText, sources := Some srcs\<rparr>],
               updatedAt := t1\<rparr>
        else s)"
  by (simp add: reconciled_session_def plain_text_def)

lemma processResponse_plain:
  assumes "reconcile nts (stream_text stream) = plain_text (stream_text stream)"
  shows "processResponse nts sessionId stream Completed t0 t1 st
     = Inr (st\<lparr>sessions :=
               map (\<lambda>s. if session_id s = sessionId
                         then s\<lparr>messages := messages s @
                                  [(placeholderMessage t0)
                                     \<lparr>content := stream_text stream,
                                      sources := Some (dedup_sources (stream_sources stream))\<rparr>],
                                updatedAt := t1\<rparr>
                         else s) (sessions st),
             isLoading := False\<rparr>)"
proof -
  have "newMode (plain_text (stream_text stream)) = None"
    by (simp add: plain_text_def)
  then show ?thesis
    unfolding processResponse_completed assms
    by (simp add: reconciled_session_plain cong: map_cong)
qed


subsection \<open>A parsed block\<close>

lemma reconcile_parsed:
  assumes "json_match fullText = Some (match0, match1)"
    and "JSON_parse match1 = Some parsedJson" and "parsedJson \<noteq> JNull"
  shows "reconcile nts fullText = extract_aids nts fullText match0 parsedJson"
proof -
  have "match1 \<noteq> []"
    using assms(2) JSON_parse_Nil by auto
  then show ?thesis
    using assms by (simp add: reconcile_def)
qed

lemma extract_aids_fields:
  "newQuizItems (extract_aids nts fullText match0 parsedJson)
     = (if nonempty_array (get_prop parsedJson (js ''quiz''))
        then array_items (get_prop parsedJson (js ''quiz'')) else [])"
  "newFlashcards (extract_aids nts fullText match0 parsedJson)
     = (if nonempty_array (get_prop parsedJson (js ''flashcards''))
        then array_items (get_prop parsedJson (js ''flashcards'')) else [])"
  "newSlides (extract_aids nts fullText match0 parsedJson)
     = (if nonempty_array (get_prop parsedJson (js ''slides''))
        then array_items (get_prop parsedJson (js ''slides'')) else [])"
  "newMode (extract_aids nts fullText match0 parsedJson)
     = (if nonempty_array (get_prop parsedJson (js ''slides'')) then Some ModeSlides
        else if nonempty_array (get_prop parsedJson (js ''flashcards'')) then Some ModeFlashcards
        else if nonempty_array (get_prop parsedJson (js ''quiz'')) then Some ModeQuiz
        else None)"
  "studyAidTitle (extract_aids nts fullText match0 parsedJson) = aid_title parsedJson"
  by (simp_all add: extract_aids_def Let_def)

lemma nonempty_array_items: "nonempty_array x \<Longrightarrow> array_items x \<noteq> []"
  by (auto simp: nonempty_array_def array_items_def split: option.splits json.splits list.splits)

lemma processResponse_parsed:
  assumes "json_match (stream_text stream) = Some (match0, match1)"
    and "JSON_parse match1 = Some parsedJson" and "parsedJson \<noteq> JNull"
  shows "processResponse nts sessionId stream Completed t0 t1 st
     = Inr (st\<lparr>sessions :=
               map (\<lambda>s. if session_id s = sessionId
                         then s\<lparr>messages := messages s @
                                  [(placeholderMessage t0)
                                     \<lparr>content := finalText (extract_aids nts (stream_text stream)
                                                    match0 parsedJson),
                                      sources := Some (dedup_sources (stream_sources stream))\<rparr>],
                                flashcards :=
                                  (if nonempty_array (get_prop parsedJson (js ''flashcards''))
                                   then array_items (get_prop parsedJson (js ''flashcards''))
                                   else flashcards s),
                                flashcardsTitle :=
                                  (if nonempty_array (get_prop parsedJson (js ''flashcards''))
                                   then aid_title parsedJson else flashcardsTitle s),
                                quizItems :=
                                  (if nonempty_array (get_prop parsedJson (js ''quiz''))
                                   then array_items (get_prop parsedJson (js ''quiz''))
                                   else quizItems s),
                                quizTitle :=
                                  (if nonempty_array (get_prop parsedJson (js ''quiz''))
                                   then aid_title parsedJson else quizTitle s),
                                slides :=
                                  (if nonempty_array (get_prop parsedJson (js ''slides''))
                                   then array_items (get_prop parsedJson (js ''slides''))
                                   else slides s),
                                slidesTitle :=
                                  (if nonempty_array (get_prop parsedJson (js ''slides''))
                                   then aid_title parsedJson else slidesTitle s),
                                updatedAt := t1\<rparr>
                         else s) (sessions st),
             studyMode :=
               (if nonempty_array (get_prop parsedJson (js ''slides'')) then ModeSlides
                else if nonempty_array (get_prop parsedJson (js ''flashcards'')) then ModeFlashcards
                else if nonempty_array (get_prop parsedJson (js ''quiz'')) then ModeQuiz
                else studyMode st),
             isLoading := False\<rparr>)"
proof -
  let ?r = "extract_aids nts (stream_text stream) match0 parsedJson"
  have r: "reconcile nts (stream_text stream) = ?r"
    using assms by (rule reconcile_parsed)
  have s: "reconciled_session sessionId ?r srcs t0 t1 s
     = (if session_id s = sessionId
                         then s\<lparr>messages := messages s @
                                  [(placeholderMessage t0)
                                     \<lparr>content := finalText ?r,
                                      sources := Some srcs\<rparr>],
                                flashcards :=
                                  (if nonempty_array (get_prop parsedJson (js ''flashcards''))
                                   then array_items (get_prop parsedJson (js ''flashcards''))
                                   else flashcards s),
                                flashcardsTitle :=
                                  (if nonempty_array (get_prop parsedJson (js ''flashcards''))
                                   then aid_title parsedJson else flashcardsTitle s),
                                quizItems :=
                                  (if nonempty_array (get_prop parsedJson (js ''quiz''))
                                   then array_items (get_prop parsedJson (js ''quiz''))
                                   else quizItems s),
                                quizTitle :=
                                  (if nonempty_array (get_prop parsedJson (js ''quiz''))
                                   then aid_title parsedJson else quizTitle s),
                                slides :=
                                  (if nonempty_array (get_prop parsedJson (js ''slides''))
                                   then array_items (get_prop parsedJson (js ''slides''))
                                   else slides s),
                                slidesTitle :=
                                  (if nonempty_array (get_prop parsedJson (js ''slides''))
                                   then aid_title parsedJson else slidesTitle s),
                                updatedAt := t1\<rparr>
                         else s)" for s srcs
    by (cases "nonempty_array (get_prop parsedJson (js ''flashcards''))";
        cases "nonempty_array (get_prop parsedJson (js ''quiz''))";
        cases "nonempty_array (get_prop parsedJson (js ''slides''))")
       (simp_all add: reconciled_session_def extract_aids_fields aid_title_def
          nonempty_array_items)
  have m: "(case newMode ?r of None \<Rightarrow> studyMode st | Some m \<Rightarrow> m)
           = (if nonempty_array (get_prop parsedJson (js ''slides'')) then ModeSlides
                else if nonempty_array (get_prop parsedJson (js ''flashcards'')) then ModeFlashcards
                else if nonempty_array (get_prop parsedJson (js ''quiz'')) then ModeQuiz
                else studyMode st)"
    unfolding extract_aids_fields by simp
  show ?thesis
    unfolding processResponse_completed r m s by (rule refl)
qed

lemma indexOf_self: "indexOf s s = Some 0"
  by (rule indexOf_startsWith) (simp add: startsWith_def)

lemma replace_first_self: "replace_first s s [] = []"
  by (simp add: replace_first_def indexOf_self)

lemma trim_Nil: "trim [] = []"
  by (simp add: trim_def)

lemma fallback_text:
  assumes "get_prop parsedJson (js ''title'') = Some (JStr T)"
    and "nonempty_array (get_prop parsedJson (js ''flashcards''))"
  shows "finalText (extract_aids nts fullText fullText parsedJson)
           = js ''I've created the \"'' @ T @ js ''\" for you.''"
proof -
  have "ToString nts (aid_title parsedJson) = Inr T"
    using assms(1) by (cases "T = []") (simp_all add: aid_title_def to_boolean_def)
  then show ?thesis
    using assms(2)
    by (simp add: extract_aids_def Let_def replace_first_self trim_Nil aid_title_def)
qed

subsection \<open>Numbers read back\<close>

lemma show_nat_digits: "\<forall>d \<in> set (show_nat n). is_digit d"
proof (induction n rule: show_nat.induct)
  case (1 n)
  show ?case
  proof (cases "n < 10")
    case True
    then show ?thesis by (simp add: show_nat.simps [of n] is_digit_def)
  next
    case False
    then have "\<forall>d \<in> set (show_nat (n div 10)). is_digit d" using 1 by simp
    moreover have "is_digit (48 + n mod 10)" by (simp add: is_digit_def)
    ultimately show ?thesis using False by (simp add: show_nat.simps [of n])
  qed
qed

lemma show_nat_nonempty: "show_nat n \<noteq> []"
  by (simp add: show_nat.simps [of n])

lemma digits_value_snoc: "digits_value (ds @ [d]) = 10 * digits_value ds + (d - 48)"
  by (simp add: digits_value_def)

lemma digits_value_show_nat: "digits_value (show_nat n) = n"
proof (induction n rule: show_nat.induct)
  case (1 n)
  show ?case
  proof (cases "n < 10")
    case True
    then show ?thesis by (simp add: show_nat.simps [of n] digits_value_def)
  next
    case False
    then have "digits_value (show_nat (n div 10)) = n div 10" using 1 by simp
    then show ?thesis using False
      by (simp add: show_nat.simps [of n] digits_value_snoc)
  qed
qed

lemma show_nat_hd: "0 < n \<Longrightarrow> hd (show_nat n) \<noteq> 48"
proof (induction n rule: show_nat.induct)
  case (1 n)
  show ?case
  proof (cases "n < 10")
    case True
    then show ?thesis using "1.prems" by (simp add: show_nat.simps [of n])
  next
    case False
    then have "hd (show_nat (n div 10)) \<noteq> 48" using "1.IH" by simp
    then show ?thesis using False show_nat_nonempty [of "n div 10"]
      by (simp add: show_nat.simps [of n])
  qed
qed

lemma takeWhile_digits_append:
  "\<forall>d \<in> set ds. is_digit d \<Longrightarrow> rest = [] \<or> \<not> is_digit (hd rest) \<Longrightarrow>
     takeWhile is_digit (ds @ rest) = ds \<and> dropWhile is_digit (ds @ rest) = rest"
  by (cases rest) (simp_all add: takeWhile_append2 dropWhile_append2)

lemma terminated_not_digit: "terminated rest \<Longrightarrow> rest = [] \<or> \<not> is_digit (hd rest)"
  by (auto simp: terminated_def is_digit_def)

lemma parse_int_part_show_nat:
  assumes "rest = [] \<or> \<not> is_digit (hd rest)"
  shows "parse_int_part (show_nat n @ rest) = Some (show_nat n, rest)"
proof (cases "n = 0")
  case True
  then show ?thesis
    by (simp add: show_nat.simps [of 0] parse_int_part_def)
next
  case False
  obtain c cs where sn: "show_nat n = c # cs"
    using show_nat_nonempty [of n] by (cases "show_nat n") auto
  have c: "c \<noteq> 48" "is_digit c"
    using show_nat_hd [of n] show_nat_digits [of n] False sn by auto
  have "takeWhile is_digit (show_nat n @ rest) = show_nat n
        \<and> dropWhile is_digit (show_nat n @ rest) = rest"
    using takeWhile_digits_append [OF show_nat_digits assms] .
  then show ?thesis
    using c sn by (simp add: parse_int_part_def)
qed

lemma parse_exp_digits_show_nat:
  assumes "rest = [] \<or> \<not> is_digit (hd rest)"
  shows "parse_exp_digits (show_nat n @ rest) = Some (n, rest)"
  using takeWhile_digits_append [OF show_nat_digits assms, of n] show_nat_nonempty [of n]
  by (simp add: parse_exp_digits_def digits_value_show_nat)

lemma hd_show_nat_digit: "is_digit (hd (show_nat n @ rest))"
  using show_nat_digits [of n] show_nat_nonempty [of n] by (cases "show_nat n") auto

lemma parse_unsigned_text:
  assumes "terminated rest"
  shows "parse_unsigned (show_nat n @ (if e = 0 then [] else 101 # show_int e) @ rest)
           = Some (int n, e, rest)"
proof (cases "e = 0")
  case True
  have nd: "rest = [] \<or> \<not> is_digit (hd rest)"
    using assms by (rule terminated_not_digit)
  have fr: "parse_frac_part rest = Some ([], rest)"
    using assms by (cases rest) (auto simp: parse_frac_part_def terminated_def)
  have ex: "parse_exp_part rest = Some (0, rest)"
    using assms by (cases rest) (auto simp: parse_exp_part_def terminated_def)
  show ?thesis
    using True parse_int_part_show_nat [OF nd, of n] fr ex
    by (simp add: parse_unsigned_def digits_value_show_nat)
next
  case False
  let ?r = "101 # show_int e @ rest"
  have nd: "?r = [] \<or> \<not> is_digit (hd ?r)"
    by (simp add: is_digit_def)
  have nd': "rest = [] \<or> \<not> is_digit (hd rest)"
    using assms by (rule terminated_not_digit)
  have fr: "parse_frac_part ?r = Some ([], ?r)"
    by (simp add: parse_frac_part_def)
  have ex: "parse_exp_part ?r = Some (e, rest)"
  proof (cases "e < 0")
    case True
    then show ?thesis
      using parse_exp_digits_show_nat [OF nd', of "nat (- e)"]
      by (simp add: parse_exp_part_def show_int_def)
  next
    case False
    have "hd (show_nat (nat e) @ rest) \<noteq> 45 \<and> hd (show_nat (nat e) @ rest) \<noteq> 43"
      using hd_show_nat_digit [of "nat e" rest] by (auto simp: is_digit_def)
    moreover obtain d ds where "show_nat (nat e) @ rest = d # ds"
      using show_nat_nonempty [of "nat e"] by (cases "show_nat (nat e) @ rest") auto
    ultimately show ?thesis
      using False parse_exp_digits_show_nat [OF nd', of "nat e"]
      by (auto simp: parse_exp_part_def show_int_def)
  qed
  show ?thesis
    using False parse_int_part_show_nat [OF nd, of n] fr ex
    by (simp add: parse_unsigned_def digits_value_show_nat)
qed

lemma parse_number_text:
  assumes "terminated rest"
  shows "parse_number (number_text m e @ rest) = Some (JNum m e, rest)"
proof (cases "m < 0")
  case True
  have "number_text m e @ rest
          = 45 # show_nat (nat (- m)) @ (if e = 0 then [] else 101 # show_int e) @ rest"
    using True by (simp add: number_text_def show_int_def)
  then show ?thesis
    using True parse_unsigned_text [OF assms, of "nat (- m)" e]
    by (simp add: parse_number_def)
next
  case False
  have t: "number_text m e @ rest
          = show_nat (nat m) @ (if e = 0 then [] else 101 # show_int e) @ rest"
    using False by (simp add: number_text_def show_int_def)
  obtain d ds where dd: "show_nat (nat m) @ (if e = 0 then [] else 101 # show_int e) @ rest = d # ds"
    using show_nat_nonempty [of "nat m"]
    by (cases "show_nat (nat m) @ (if e = 0 then [] else 101 # show_int e) @ rest") auto
  have "is_digit d"
    using hd_show_nat_digit [of "nat m" "(if e = 0 then [] else 101 # show_int e) @ rest"] dd
    by simp
  then have "d \<noteq> 45" by (auto simp: is_digit_def)
  then show ?thesis
    using False parse_unsigned_text [OF assms, of "nat m" e] dd
    by (simp add: t parse_number_def)
qed

subsection \<open>Strings read back\<close>

lemma hex_value_hex_digit: "n < 16 \<Longrightarrow> hex_value (hex_digit n) = Some n"
  by (simp add: hex_value_def hex_digit_def)

lemma hex4_unicode:
  assumes "c < 65536"
  shows "hex4 (hex_digit (c div 4096)) (hex_digit (c div 256 mod 16))
           (hex_digit (c div 16 mod 16)) (hex_digit (c mod 16)) = Some c"
proof -
  have "c div 4096 < 16" using assms by simp
  then have "hex_value (hex_digit (c div 4096)) = Some (c div 4096)"
    by (rule hex_value_hex_digit)
  moreover have "hex_value (hex_digit (c div 256 mod 16)) = Some (c div 256 mod 16)"
    "hex_value (hex_digit (c div 16 mod 16)) = Some (c div 16 mod 16)"
    "hex_value (hex_digit (c mod 16)) = Some (c mod 16)"
    by (simp_all add: hex_value_hex_digit)
  moreover have "4096 * (c div 4096) + 256 * (c div 256 mod 16) + 16 * (c div 16 mod 16) + c mod 16 = c"
  proof -
    have a: "c mod 256 = 16 * (c div 16 mod 16) + c mod 16"
      using mod_mult2_eq [of c 16 16] by simp
    have b: "c mod 4096 = 256 * (c div 256 mod 16) + c mod 256"
      using mod_mult2_eq [of c 256 16] by simp
    have "c = 4096 * (c div 4096) + c mod 4096"
      by simp
    then show ?thesis
      using a b by linarith
  qed
  ultimately show ?thesis
    by (simp add: hex4_def)
qed

lemma parse_chars_unicode_escape:
  "c < 65536 \<Longrightarrow>
     parse_chars (unicode_escape c @ tail)
       = map_option (\<lambda>(str, rest). (c # str, rest)) (parse_chars tail)"
  by (simp add: unicode_escape_def hex4_unicode)

lemma parse_chars_quote_chars:
  "parse_chars (quote_chars s @ 34 # rest) = Some (s, rest)"
proof (induction "length s" arbitrary: s rule: less_induct)
  case less
  show ?case
  proof (cases s)
    case Nil
    then show ?thesis by simp
  next
    case (Cons c cs)
    have IH: "parse_chars (quote_chars cs @ 34 # rest) = Some (cs, rest)"
      using less [of cs] Cons by simp
    show ?thesis
    proof (cases "c = 8 \<or> c = 9 \<or> c = 10 \<or> c = 12 \<or> c = 13 \<or> c = 34 \<or> c = 92")
      case True
      then show ?thesis
        using IH Cons by (auto simp: escape_char_def)
    next
      case special: False
      show ?thesis
      proof (cases "c < 32")
        case True
        then show ?thesis
          using special IH Cons by (simp add: parse_chars_unicode_escape)
      next
        case printable: False
        show ?thesis
        proof (cases "is_high_surrogate c")
          case True
          then have c: "c < 65536" by (simp add: is_high_surrogate_def)
          show ?thesis
          proof (cases cs)
            case Nil
            then show ?thesis
              using special printable True Cons c by (simp add: parse_chars_unicode_escape)
          next
            case (Cons d ds)
            have IH2: "parse_chars (quote_chars ds @ 34 # rest) = Some (ds, rest)"
              using less [of ds] Cons \<open>s = c # cs\<close> by simp
            show ?thesis
            proof (cases "is_low_surrogate d")
              case True
              then have "d \<noteq> 34" "d \<noteq> 92" "\<not> d < 32"
                by (simp_all add: is_low_surrogate_def)
              then show ?thesis
                using special printable \<open>is_high_surrogate c\<close> True Cons \<open>s = c # cs\<close> IH2
                by simp
            next
              case False
              then show ?thesis
                using special printable \<open>is_high_surrogate c\<close> Cons \<open>s = c # cs\<close> IH c
                by (simp add: parse_chars_unicode_escape)
            qed
          qed
        next
          case not_high: False
          show ?thesis
          proof (cases "is_low_surrogate c")
            case True
            then have "c < 65536" by (simp add: is_low_surrogate_def)
            then show ?thesis
              using special printable not_high True Cons IH
              by (simp add: parse_chars_unicode_escape)
          next
            case False
            then show ?thesis
              using special printable not_high Cons IH by simp
          qed
        qed
      qed
    qed
  qed
qed

subsection \<open>Values read back\<close>

declare parse_value.simps [simp del] parse_elements.simps [simp del] parse_members.simps [simp del]

lemma skip_ws_Cons: "\<not> json_ws c \<Longrightarrow> skip_ws (c # cs) = c # cs"
  by (simp add: skip_ws_def)

lemma show_nat_first: "\<exists>c cs. show_nat n = c # cs \<and> is_digit c"
  using show_nat_digits [of n] show_nat_nonempty [of n] by (cases "show_nat n") auto

lemma show_int_first: "\<exists>c cs. show_int m = c # cs \<and> (c = 45 \<or> is_digit c)"
proof (cases "m < 0")
  case True
  then show ?thesis by (simp add: show_int_def)
next
  case False
  then show ?thesis using show_nat_first [of "nat m"] by (auto simp: show_int_def)
qed

lemma number_text_first: "\<exists>c cs. number_text m e = c # cs \<and> (c = 45 \<or> is_digit c)"
proof -
  obtain c cs where "show_int m = c # cs" "c = 45 \<or> is_digit c"
    using show_int_first by blast
  then show ?thesis
    by (auto simp: number_text_def)
qed

lemma value_start_simps:
  "value_start c \<Longrightarrow> \<not> json_ws c \<and> c \<noteq> 93 \<and> c \<noteq> 125"
  by (auto simp: value_start_def json_ws_def is_digit_def)

lemma stringify_first: "\<exists>c cs. JSON_stringify v = c # cs \<and> value_start c"
proof (cases v)
  case (JNum m e)
  then show ?thesis
    using number_text_first [of m e] by (auto simp: value_start_def)
qed (auto simp: value_start_def js_def QuoteJSONString_def)

lemma stringify_elements_first:
  assumes "xs \<noteq> []"
  shows "\<exists>c cs. stringify_elements xs = c # cs \<and> value_start c"
proof (cases xs)
  case Nil
  then show ?thesis using assms by simp
next
  case (Cons x ys)
  then show ?thesis
    using stringify_first [of x] by (cases ys) auto
qed

lemma stringify_members_first:
  assumes "ms \<noteq> []"
  shows "\<exists>cs. stringify_members ms = 34 # cs"
proof (cases ms)
  case Nil
  then show ?thesis using assms by simp
next
  case (Cons p ps)
  obtain k v where "p = (k, v)" by (cases p)
  then show ?thesis
    using Cons by (cases ps) (auto simp: QuoteJSONString_def)
qed

lemma parse_value_literal:
  "parse_value (Suc n) (js ''null'' @ rest) = Some (JNull, rest)"
  "parse_value (Suc n) (js ''true'' @ rest) = Some (JBool True, rest)"
  "parse_value (Suc n) (js ''false'' @ rest) = Some (JBool False, rest)"
  by (simp_all add: parse_value.simps js_def skip_ws_def json_ws_def startsWith_def)

lemma parse_value_number:
  assumes "terminated rest"
  shows "parse_value (Suc n) (number_text m e @ rest) = Some (JNum m e, rest)"
proof -
  obtain c cs where t: "number_text m e = c # cs" and c: "c = 45 \<or> is_digit c"
    using number_text_first by blast
  have nw: "\<not> json_ws c" and ne: "c \<noteq> 123" "c \<noteq> 91" "c \<noteq> 34" "c \<noteq> 116" "c \<noteq> 102" "c \<noteq> 110"
    using c by (auto simp: json_ws_def is_digit_def)
  have "parse_value (Suc n) ((c # cs) @ rest) = parse_number ((c # cs) @ rest)"
    using nw ne by (simp add: parse_value.simps skip_ws_def startsWith_def js_def)
  then show ?thesis
    using parse_number_text [OF assms, of m e] t by simp
qed

lemma parse_value_string:
  "parse_value (Suc n) (QuoteJSONString str @ rest) = Some (JStr str, rest)"
  by (simp add: parse_value.simps QuoteJSONString_def skip_ws_def json_ws_def
      parse_chars_quote_chars)

lemma parse_value_open_bracket:
  assumes "body = c # cs" "value_start c"
  shows "parse_value (Suc n) (91 # body)
           = map_option (\<lambda>(vs, r). (JArr vs, r)) (parse_elements n body)"
  using assms value_start_simps [OF assms(2)]
  by (simp add: parse_value.simps skip_ws_def json_ws_def)

lemma parse_value_open_brace:
  assumes "body = 34 # cs"
  shows "parse_value (Suc n) (123 # body)
           = map_option (\<lambda>(ms, r). (JObj ms, r)) (parse_members n body)"
  using assms by (simp add: parse_value.simps skip_ws_def json_ws_def)

lemma parse_roundtrip:
  "need v \<le> n \<Longrightarrow> terminated rest \<Longrightarrow>
     parse_value n (JSON_stringify v @ rest) = Some (v, rest)"
  "xs \<noteq> [] \<Longrightarrow> need_elements xs \<le> n \<Longrightarrow>
     parse_elements n (stringify_elements xs @ 93 # rest) = Some (xs, rest)"
  "ms \<noteq> [] \<Longrightarrow> need_members ms \<le> n \<Longrightarrow>
     parse_members n (stringify_members ms @ 125 # rest) = Some (ms, rest)"
proof (induction v and xs and ms arbitrary: n rest and n rest and n rest
       rule: JSON_stringify_stringify_elements_stringify_members.induct)
  case 1
  then obtain k where "n = Suc k" by (cases n) auto
  then show ?case by (simp add: parse_value_literal)
next
  case (2 b)
  then obtain k where "n = Suc k" by (cases n) auto
  then show ?case by (cases b) (simp_all add: parse_value_literal)
next
  case (3 m e)
  then obtain k where "n = Suc k" by (cases n) auto
  then show ?case using 3 by (simp add: parse_value_number)
next
  case (4 str)
  then obtain k where "n = Suc k" by (cases n) auto
  then show ?case by (simp add: parse_value_string)
next
  case (5 items)
  then obtain k where k: "n = Suc k" "need_elements items \<le> k" by (cases n) auto
  show ?case
  proof (cases "items = []")
    case True
    then show ?thesis using k by (simp add: parse_value.simps skip_ws_def json_ws_def)
  next
    case False
    obtain c cs where b: "stringify_elements items @ 93 # rest = c # cs" "value_start c"
      using stringify_elements_first [OF False] by auto
    have "parse_elements k (stringify_elements items @ 93 # rest) = Some (items, rest)"
      using "5.IH" [OF False k(2)] .
    then show ?thesis
      using parse_value_open_bracket [OF b, of k] k by simp
  qed
next
  case (6 members)
  then obtain k where k: "n = Suc k" "need_members members \<le> k" by (cases n) auto
  show ?case
  proof (cases "members = []")
    case True
    then show ?thesis using k by (simp add: parse_value.simps skip_ws_def json_ws_def)
  next
    case False
    obtain cs where b: "stringify_members members @ 125 # rest = 34 # cs"
      using stringify_members_first [OF False] by auto
    have "parse_members k (stringify_members members @ 125 # rest) = Some (members, rest)"
      using "6.IH" [OF False k(2)] .
    then show ?thesis
      using parse_value_open_brace [OF b, of k] k by simp
  qed
next
  case 7
  then show ?case by simp
next
  case (8 x)
  then obtain k where k: "n = Suc k" "need x \<le> k" by (cases n) auto
  have t: "terminated (93 # rest)" by (simp add: terminated_def)
  have "parse_value k (JSON_stringify x @ 93 # rest) = Some (x, 93 # rest)"
    using "8.IH" [OF k(2) t] .
  then show ?case
    using k by (simp add: parse_elements.simps skip_ws_def json_ws_def)
next
  case (9 x y ys)
  then obtain k where k: "n = Suc k" "need x \<le> k" "need_elements (y # ys) \<le> k"
    by (cases n) auto
  let ?more = "stringify_elements (y # ys) @ 93 # rest"
  have t: "terminated (44 # ?more)" by (simp add: terminated_def)
  have "parse_value k (JSON_stringify x @ 44 # ?more) = Some (x, 44 # ?more)"
    using "9.IH"(1) [OF k(2) t] .
  moreover have "parse_elements k ?more = Some (y # ys, rest)"
    using "9.IH"(2) [OF _ k(3)] by simp
  ultimately show ?case
    using k by (simp add: parse_elements.simps skip_ws_def json_ws_def)
next
  case 10
  then show ?case by simp
next
  case (11 key v)
  then obtain k where k: "n = Suc k" "need v \<le> k" by (cases n) auto
  have t: "terminated (125 # rest)" by (simp add: terminated_def)
  have "parse_value k (JSON_stringify v @ 125 # rest) = Some (v, 125 # rest)"
    using "11.IH" [OF k(2) t] .
  then show ?case
    using k by (simp add: parse_members.simps QuoteJSONString_def skip_ws_def json_ws_def
        parse_chars_quote_chars)
next
  case (12 key v m ms)
  then obtain k where k: "n = Suc k" "need v \<le> k" "need_members (m # ms) \<le> k"
    by (cases n) auto
  let ?more = "stringify_members (m # ms) @ 125 # rest"
  have t: "terminated (44 # ?more)" by (simp add: terminated_def)
  have "parse_value k (JSON_stringify v @ 44 # ?more) = Some (v, 44 # ?more)"
    using "12.IH"(1) [OF k(2) t] .
  moreover have "parse_members k ?more = Some (m # ms, rest)"
    using "12.IH"(2) [OF _ k(3)] by simp
  ultimately show ?case
    using k by (simp add: parse_members.simps QuoteJSONString_def skip_ws_def json_ws_def
        parse_chars_quote_chars)
qed

subsection \<open>The parser consumes its input\<close>

lemma length_skip_ws: "length (skip_ws s) \<le> length s"
  by (simp add: skip_ws_def length_dropWhile_le)

lemma skip_ws_ConsD: "skip_ws s = c # cs \<Longrightarrow> length cs < length s"
  using length_skip_ws [of s] by simp

lemma parse_chars_shorter: "parse_chars s = Some (str, r) \<Longrightarrow> length r < length s"
proof (induction "length s" arbitrary: s str r rule: less_induct)
  case less
  show ?case
  proof (cases s)
    case Nil
    then show ?thesis using less.prems by simp
  next
    case (Cons c cs)
    have IH: "\<And>t str' r'. length t < length s \<Longrightarrow> parse_chars t = Some (str', r')
                \<Longrightarrow> length r' < length t"
      using less.hyps by blast
    show ?thesis
    proof (cases "c = 34")
      case True
      then show ?thesis using less.prems Cons by simp
    next
      case nq: False
      show ?thesis
      proof (cases "c = 92")
        case False
        then obtain str' where "parse_chars cs = Some (str', r)"
          using less.prems Cons nq by (auto split: if_splits)
        then have "length r < length cs"
          using IH [of cs str' r] Cons by simp
        then show ?thesis using Cons by simp
      next
        case True
        then obtain e t where cs: "cs = e # t"
          using less.prems Cons nq by (cases cs) auto
        show ?thesis
        proof (cases "e = 117")
          case False
          then obtain str' where "parse_chars t = Some (str', r)"
            using less.prems Cons nq True cs by (auto split: option.splits)
          then have "length r < length t"
            using IH [of t str' r] Cons cs by simp
          then show ?thesis using Cons cs by simp
        next
          case u: True
          then obtain h1 h2 h3 h4 t' str' where t: "t = h1 # h2 # h3 # h4 # t'"
            and p: "parse_chars t' = Some (str', r)"
            using less.prems Cons nq True cs
            by (auto split: list.splits option.splits)
          have "length r < length t'"
            using IH [of t' str' r] Cons cs t p by simp
          then show ?thesis using Cons cs t by simp
        qed
      qed
    qed
  qed
qed

lemma parse_int_part_shorter:
  assumes a: "parse_int_part s = Some (ds, r)"
  shows "length r < length s"
proof (cases s)
  case Nil
  then show ?thesis using a by (simp add: parse_int_part_def)
next
  case (Cons c cs)
  show ?thesis
  proof (cases "c = 48")
    case True
    then show ?thesis using a Cons by (simp add: parse_int_part_def)
  next
    case False
    then have "is_digit c" and r: "r = dropWhile is_digit s"
      using a Cons by (auto simp: parse_int_part_def split: if_splits)
    then have "r = dropWhile is_digit cs" using Cons by simp
    then show ?thesis
      using Cons length_dropWhile_le [of is_digit cs] by simp
  qed
qed

lemma parse_frac_part_shorter:
  assumes a: "parse_frac_part s = Some (fs, r)"
  shows "length r \<le> length s"
proof (cases s)
  case Nil
  then show ?thesis using a by (simp add: parse_frac_part_def)
next
  case (Cons c cs)
  show ?thesis
    using a Cons length_dropWhile_le [of is_digit cs]
    by (auto simp: parse_frac_part_def split: if_splits)
qed

lemma parse_exp_digits_shorter: "parse_exp_digits s = Some (n, r) \<Longrightarrow> length r \<le> length s"
  using length_dropWhile_le [of is_digit s]
  by (auto simp: parse_exp_digits_def split: if_splits)

lemma parse_exp_part_shorter:
  assumes a: "parse_exp_part s = Some (ex, r)"
  shows "length r \<le> length s"
proof (cases s)
  case Nil
  then show ?thesis using a by (simp add: parse_exp_part_def)
next
  case (Cons c cs)
  show ?thesis
  proof (cases "c = 101 \<or> c = 69")
    case False
    then show ?thesis using a Cons by (auto simp: parse_exp_part_def)
  next
    case True
    then obtain d ds where cs: "cs = d # ds"
      using a Cons by (cases cs) (auto simp: parse_exp_part_def)
    have "(\<exists>n. parse_exp_digits ds = Some (n, r)) \<or> (\<exists>n. parse_exp_digits cs = Some (n, r))"
      using a Cons True cs by (auto simp: parse_exp_part_def split: if_splits)
    then have "length r \<le> length cs"
      using parse_exp_digits_shorter [of ds _ r] parse_exp_digits_shorter [of cs _ r] cs
      by auto
    then show ?thesis using Cons by simp
  qed
qed

lemma parse_unsigned_shorter: "parse_unsigned s = Some (m, e, r) \<Longrightarrow> length r < length s"
proof -
  assume "parse_unsigned s = Some (m, e, r)"
  then obtain ds r1 fs r2 ex where "parse_int_part s = Some (ds, r1)"
    "parse_frac_part r1 = Some (fs, r2)" "parse_exp_part r2 = Some (ex, r)"
    by (auto simp: parse_unsigned_def split: option.splits)
  then show ?thesis
    using parse_int_part_shorter [of s ds r1] parse_frac_part_shorter [of r1 fs r2]
      parse_exp_part_shorter [of r2 ex r] by simp
qed

lemma parse_number_shorter:
  assumes a: "parse_number s = Some (v, r)"
  shows "length r < length s"
proof (cases s)
  case Nil
  then show ?thesis using a by (simp add: parse_number_def)
next
  case (Cons c cs)
  have "(\<exists>m e. parse_unsigned cs = Some (m, e, r)) \<or> (\<exists>m e. parse_unsigned s = Some (m, e, r))"
    using a Cons by (auto simp: parse_number_def split: if_splits)
  then show ?thesis
    using parse_unsigned_shorter [of cs _ _ r] parse_unsigned_shorter [of s _ _ r] Cons
    by auto
qed

subsection \<open>The depth bound of \<open>JSON.parse\<close> is never reached\<close>

lemma startsWith_length: "startsWith s p \<Longrightarrow> length p \<le> length s"
proof -
  assume "startsWith s p"
  then have "length (take (length p) s) = length p"
    by (simp only: startsWith_def)
  then show ?thesis by simp
qed

lemma startsWith_drop_shorter:
  assumes "startsWith s p" and "0 < length p" and "k = length p"
  shows "length (drop k s) < length s"
proof -
  have "length p \<le> length s" using assms(1) by (rule startsWith_length)
  moreover have "length (drop k s) = length s - length p" using assms(3) by simp
  ultimately show ?thesis using assms(2) by arith
qed

lemma length_literals:
  "length (js ''true'') = 4" "length (js ''false'') = 5" "length (js ''null'') = 4"
  by (simp_all add: js_def)

lemma fuel_adequate:
  "(\<forall>s v r. parse_value n s = Some (v, r) \<longrightarrow>
       length r < length s \<and>
       (\<forall>m. 2 * (length s - length r) \<le> m \<longrightarrow> parse_value m s = Some (v, r)))
   \<and> (\<forall>s vs r. parse_elements n s = Some (vs, r) \<longrightarrow>
       length r < length s \<and>
       (\<forall>m. 2 * (length s - length r) + 1 \<le> m \<longrightarrow> parse_elements m s = Some (vs, r)))
   \<and> (\<forall>s ms r. parse_members n s = Some (ms, r) \<longrightarrow>
       length r < length s \<and>
       (\<forall>m. 2 * (length s - length r) + 1 \<le> m \<longrightarrow> parse_members m s = Some (ms, r)))"
proof (induction n)
  case 0
  show ?case
    by (simp add: parse_value.simps parse_elements.simps parse_members.simps)
next
  case (Suc n)
  have IHv: "\<And>s v r. parse_value n s = Some (v, r) \<Longrightarrow> length r < length s"
    "\<And>s v r m. parse_value n s = Some (v, r) \<Longrightarrow> 2 * (length s - length r) \<le> m
       \<Longrightarrow> parse_value m s = Some (v, r)"
    and IHe: "\<And>s vs r. parse_elements n s = Some (vs, r) \<Longrightarrow> length r < length s"
    "\<And>s vs r m. parse_elements n s = Some (vs, r) \<Longrightarrow> 2 * (length s - length r) + 1 \<le> m
       \<Longrightarrow> parse_elements m s = Some (vs, r)"
    and IHm: "\<And>s ms r. parse_members n s = Some (ms, r) \<Longrightarrow> length r < length s"
    "\<And>s ms r m. parse_members n s = Some (ms, r) \<Longrightarrow> 2 * (length s - length r) + 1 \<le> m
       \<Longrightarrow> parse_members m s = Some (ms, r)"
    using Suc.IH by blast+
  have V: "length r < length s \<and>
       (\<forall>m. 2 * (length s - length r) \<le> m \<longrightarrow> parse_value m s = Some (v, r))"
    if a: "parse_value (Suc n) s = Some (v, r)" for s v r
  proof -
    obtain c cs where sk: "skip_ws s = c # cs"
      using a by (cases "skip_ws s") (simp_all add: parse_value.simps)
    have lcs: "length cs < length s" using sk by (rule skip_ws_ConsD)
    have unfold: "parse_value (Suc k) s =
         (if c = 123 then
           (case skip_ws cs of
              [] \<Rightarrow> None
            | d # ds \<Rightarrow>
               if d = 125 then Some (JObj [], ds)
               else map_option (\<lambda>(ms, r). (JObj ms, r)) (parse_members k cs))
         else if c = 91 then
           (case skip_ws cs of
              [] \<Rightarrow> None
            | d # ds \<Rightarrow>
               if d = 93 then Some (JArr [], ds)
               else map_option (\<lambda>(vs, r). (JArr vs, r)) (parse_elements k cs))
         else if c = 34 then map_option (\<lambda>(str, r). (JStr str, r)) (parse_chars cs)
         else if startsWith (c # cs) (js ''true'') then Some (JBool True, drop 4 (c # cs))
         else if startsWith (c # cs) (js ''false'') then Some (JBool False, drop 5 (c # cs))
         else if startsWith (c # cs) (js ''null'') then Some (JNull, drop 4 (c # cs))
         else parse_number (c # cs))" for k
      by (simp add: parse_value.simps sk)
    have ls: "length (c # cs) \<le> length s"
      using length_skip_ws [of s] sk by simp
    consider (obj) d ds where "c = 123" "skip_ws cs = d # ds" "d = 125"
      | (members) d ds where "c = 123" "skip_ws cs = d # ds" "d \<noteq> 125"
      | (arr) d ds where "c = 91" "skip_ws cs = d # ds" "d = 93"
      | (elements) d ds where "c = 91" "skip_ws cs = d # ds" "d \<noteq> 93"
      | (other) "c \<noteq> 123" "c \<noteq> 91"
      using a unfold [of n] by (cases "skip_ws cs") (auto split: if_splits)
    then show ?thesis
    proof cases
      case obj
      then have r: "r = ds" "v = JObj []" using a unfold [of n] by auto
      have "length ds < length cs" using obj(2) by (rule skip_ws_ConsD)
      then have l: "length r < length s" using r lcs by simp
      have step: "parse_value m s = Some (v, r)" if le: "2 * (length s - length r) \<le> m" for m
      proof -
        have "0 < m" using le l by arith
        then obtain k where "m = Suc k" by (cases m) auto
        then show ?thesis using unfold [of k] obj r by simp
      qed
      then show ?thesis using l by blast
    next
      case members
      then obtain ms where p: "parse_members n cs = Some (ms, r)" and v: "v = JObj ms"
        using a unfold [of n] by auto
      have l: "length r < length cs" using IHm(1) [OF p] .
      have step: "parse_value m s = Some (v, r)" if le: "2 * (length s - length r) \<le> m" for m
      proof -
        obtain k where k: "m = Suc k" using le l lcs by (cases m) auto
        then have "2 * (length cs - length r) + 1 \<le> k" using le l lcs by simp
        then have "parse_members k cs = Some (ms, r)" using IHm(2) [OF p] by blast
        then show ?thesis using unfold [of k] members v k by simp
      qed
      moreover have "length r < length s" using l lcs by simp
      ultimately show ?thesis by blast
    next
      case arr
      then have r: "r = ds" "v = JArr []" using a unfold [of n] by auto
      have "length ds < length cs" using arr(2) by (rule skip_ws_ConsD)
      then have l: "length r < length s" using r lcs by simp
      have step: "parse_value m s = Some (v, r)" if le: "2 * (length s - length r) \<le> m" for m
      proof -
        have "0 < m" using le l by arith
        then obtain k where "m = Suc k" by (cases m) auto
        then show ?thesis using unfold [of k] arr r by simp
      qed
      then show ?thesis using l by blast
    next
      case elements
      then obtain vs where p: "parse_elements n cs = Some (vs, r)" and v: "v = JArr vs"
        using a unfold [of n] by auto
      have l: "length r < length cs" using IHe(1) [OF p] .
      have step: "parse_value m s = Some (v, r)" if le: "2 * (length s - length r) \<le> m" for m
      proof -
        obtain k where k: "m = Suc k" using le l lcs by (cases m) auto
        then have "2 * (length cs - length r) + 1 \<le> k" using le l lcs by simp
        then have "parse_elements k cs = Some (vs, r)" using IHe(2) [OF p] by blast
        then show ?thesis using unfold [of k] elements v k by simp
      qed
      moreover have "length r < length s" using l lcs by simp
      ultimately show ?thesis by blast
    next
      case other
      have same: "parse_value (Suc k) s = parse_value (Suc n) s" for k
        using unfold [of k] unfold [of n] other by simp
      have "length r < length (c # cs)"
      proof (cases "c = 34")
        case True
        then obtain str where "parse_chars cs = Some (str, r)"
          using a unfold [of n] other by auto
        then show ?thesis using parse_chars_shorter [of cs str r] by simp
      next
        case False
        then consider "startsWith (c # cs) (js ''true'')" "r = drop 4 (c # cs)"
          | "startsWith (c # cs) (js ''false'')" "r = drop 5 (c # cs)"
          | "startsWith (c # cs) (js ''null'')" "r = drop 4 (c # cs)"
          | "parse_number (c # cs) = Some (v, r)"
          using a unfold [of n] other by (auto split: if_splits)
        then show ?thesis
        proof cases
          case 1
          show ?thesis
            unfolding 1(2)
            by (rule startsWith_drop_shorter [OF 1(1)]) (simp_all add: length_literals)
        next
          case 2
          show ?thesis
            unfolding 2(2)
            by (rule startsWith_drop_shorter [OF 2(1)]) (simp_all add: length_literals)
        next
          case 3
          show ?thesis
            unfolding 3(2)
            by (rule startsWith_drop_shorter [OF 3(1)]) (simp_all add: length_literals)
        next
          case 4
          then show ?thesis by (rule parse_number_shorter)
        qed
      qed
      then have l: "length r < length s" using ls by simp
      have step: "parse_value m s = Some (v, r)" if le: "2 * (length s - length r) \<le> m" for m
      proof -
        have "0 < m" using le l by arith
        then obtain k where "m = Suc k" by (cases m) auto
        then show ?thesis using same [of k] a by simp
      qed
      then show ?thesis using l by blast
    qed
  qed
  have E: "length r < length s \<and>
       (\<forall>m. 2 * (length s - length r) + 1 \<le> m \<longrightarrow> parse_elements m s = Some (vs, r))"
    if a: "parse_elements (Suc n) s = Some (vs, r)" for s vs r
  proof -
    obtain v r1 where pv: "parse_value n s = Some (v, r1)"
      using a by (cases "parse_value n s") (auto simp: parse_elements.simps)
    obtain c cs where sk: "skip_ws r1 = c # cs"
      using a pv by (cases "skip_ws r1") (simp_all add: parse_elements.simps)
    have l1: "length r1 < length s" using IHv(1) [OF pv] .
    have lcs: "length cs < length r1" using sk by (rule skip_ws_ConsD)
    have unfold: "parse_value k s = Some (v, r1) \<Longrightarrow> parse_elements (Suc k) s =
           (if c = 44 then map_option (\<lambda>(vs, r'). (v # vs, r')) (parse_elements k cs)
            else if c = 93 then Some ([v], cs)
            else None)" for k
      by (simp add: parse_elements.simps sk)
    consider (more) "c = 44" | (close) "c = 93" "c \<noteq> 44"
      using a unfold [OF pv] by (auto split: if_splits)
    then show ?thesis
    proof cases
      case more
      then obtain vs' where p: "parse_elements n cs = Some (vs', r)" and vs: "vs = v # vs'"
        using a unfold [OF pv] by auto
      have l: "length r < length cs" using IHe(1) [OF p] .
      have "parse_elements m s = Some (vs, r)" if le: "2 * (length s - length r) + 1 \<le> m" for m
      proof -
        obtain k where k: "m = Suc k" using le by (cases m) auto
        have "2 * (length s - length r1) \<le> k" using le k l lcs l1 by simp
        then have 1: "parse_value k s = Some (v, r1)" using IHv(2) [OF pv] by blast
        have "2 * (length cs - length r) + 1 \<le> k" using le k l lcs l1 by simp
        then have "parse_elements k cs = Some (vs', r)" using IHe(2) [OF p] by blast
        then show ?thesis using unfold [OF 1] more vs k by simp
      qed
      then show ?thesis using l lcs l1 by force
    next
      case close
      then have r: "r = cs" "vs = [v]" using a unfold [OF pv] by auto
      have "parse_elements m s = Some (vs, r)" if le: "2 * (length s - length r) + 1 \<le> m" for m
      proof -
        obtain k where k: "m = Suc k" using le by (cases m) auto
        have "2 * (length s - length r1) \<le> k" using le k r lcs l1 by simp
        then have 1: "parse_value k s = Some (v, r1)" using IHv(2) [OF pv] by blast
        show ?thesis using unfold [OF 1] close r k by simp
      qed
      then show ?thesis using r lcs l1 by force
    qed
  qed
  have M: "length r < length s \<and>
       (\<forall>m. 2 * (length s - length r) + 1 \<le> m \<longrightarrow> parse_members m s = Some (ms, r))"
    if a: "parse_members (Suc n) s = Some (ms, r)" for s ms r
  proof -
    obtain q qs where sk: "skip_ws s = q # qs"
      using a by (cases "skip_ws s") (simp_all add: parse_members.simps)
    have q: "q = 34"
      using a sk by (auto simp: parse_members.simps split: if_splits)
    obtain key r0 where pk: "parse_chars qs = Some (key, r0)"
      using a sk q by (cases "parse_chars qs") (auto simp: parse_members.simps)
    obtain c cs where sk0: "skip_ws r0 = c # cs"
      using a sk q pk by (cases "skip_ws r0") (simp_all add: parse_members.simps)
    have c: "c = 58"
      using a sk q pk sk0 by (auto simp: parse_members.simps split: if_splits)
    obtain v r1 where pv: "parse_value n cs = Some (v, r1)"
      using a sk q pk sk0 c by (cases "parse_value n cs") (auto simp: parse_members.simps)
    obtain d ds where sk1: "skip_ws r1 = d # ds"
      using a sk q pk sk0 c pv by (cases "skip_ws r1") (simp_all add: parse_members.simps)
    have lqs: "length qs < length s" using sk by (rule skip_ws_ConsD)
    have lr0: "length r0 < length qs" using pk by (rule parse_chars_shorter)
    have lcs: "length cs < length r0" using sk0 by (rule skip_ws_ConsD)
    have lr1: "length r1 < length cs" using IHv(1) [OF pv] .
    have lds: "length ds < length r1" using sk1 by (rule skip_ws_ConsD)
    have unfold: "parse_value k cs = Some (v, r1) \<Longrightarrow> parse_members (Suc k) s =
           (if d = 44 then map_option (\<lambda>(ms, r''). ((key, v) # ms, r'')) (parse_members k ds)
            else if d = 125 then Some ([(key, v)], ds)
            else None)" for k
      by (simp add: parse_members.simps sk q pk sk0 c sk1)
    consider (more) "d = 44" | (close) "d = 125" "d \<noteq> 44"
      using a unfold [OF pv] by (auto split: if_splits)
    then show ?thesis
    proof cases
      case more
      then obtain ms' where p: "parse_members n ds = Some (ms', r)" and ms: "ms = (key, v) # ms'"
        using a unfold [OF pv] by auto
      have l: "length r < length ds" using IHm(1) [OF p] .
      have "parse_members m s = Some (ms, r)" if le: "2 * (length s - length r) + 1 \<le> m" for m
      proof -
        obtain k where k: "m = Suc k" using le by (cases m) auto
        have "2 * (length cs - length r1) \<le> k"
          using le k l lqs lr0 lcs lr1 lds by simp
        then have 1: "parse_value k cs = Some (v, r1)" using IHv(2) [OF pv] by blast
        have "2 * (length ds - length r) + 1 \<le> k"
          using le k l lqs lr0 lcs lr1 lds by simp
        then have "parse_members k ds = Some (ms', r)" using IHm(2) [OF p] by blast
        then show ?thesis using unfold [OF 1] more ms k by simp
      qed
      then show ?thesis using l lqs lr0 lcs lr1 lds by force
    next
      case close
      then have r: "r = ds" "ms = [(key, v)]" using a unfold [OF pv] by auto
      have "parse_members m s = Some (ms, r)" if le: "2 * (length s - length r) + 1 \<le> m" for m
      proof -
        obtain k where k: "m = Suc k" using le by (cases m) auto
        have "2 * (length cs - length r1) \<le> k"
          using le k r lqs lr0 lcs lr1 lds by simp
        then have 1: "parse_value k cs = Some (v, r1)" using IHv(2) [OF pv] by blast
        show ?thesis using unfold [OF 1] close r k by simp
      qed
      then show ?thesis using r lqs lr0 lcs lr1 lds by force
    qed
  qed
  show ?case
    using V E M by blast
qed

lemma JSON_parse_complete:
  assumes "parse_value n s = Some (v, r)" and "skip_ws r = []"
  shows "JSON_parse s = Some v"
proof -
  have "2 * (length s - length r) \<le> 2 * length s + 2" by simp
  then have "parse_value (2 * length s + 2) s = Some (v, r)"
    using fuel_adequate [of n] assms(1) by blast
  then show ?thesis
    using assms(2) by (simp add: JSON_parse_def)
qed

lemma JSON_parse_sound:
  assumes "JSON_parse s = Some v"
  shows "\<exists>n r. parse_value n s = Some (v, r) \<and> skip_ws r = []"
proof (cases "parse_value (2 * length s + 2) s")
  case None
  then show ?thesis using assms by (simp add: JSON_parse_def)
next
  case (Some p)
  obtain w r where p: "p = (w, r)" by (cases p)
  have "skip_ws r = [] \<and> w = v"
    using assms Some p by (simp add: JSON_parse_def split: if_splits)
  then show ?thesis using Some p by blast
qed

lemma JSON_parse_stringify: "JSON_parse (JSON_stringify v) = Some v"
proof -
  have "parse_value (need v) (JSON_stringify v @ []) = Some (v, [])"
    by (rule parse_roundtrip(1)) (simp_all add: terminated_def)
  then show ?thesis
    using JSON_parse_complete [of "need v" "JSON_stringify v" v "[]"]
    by (simp add: skip_ws_def)
qed

declare parse_value.simps [simp] parse_elements.simps [simp] parse_members.simps [simp]

(*PROPS_END*)
section \<open>Claims\<close>

text \<open>
  C5 (as stated): deduplication by URI keeps, for each URI, the first-seen entry and its
  title. The code does not: two chunks with one URI and the titles A then B leave the
  single entry titled B.
\<close>

theorem dedup_sources_first_title_counterexample:
  "dedup_sources
     [\<lparr>uri = js ''u'', source_title = js ''A'', source_content = None\<rparr>,
      \<lparr>uri = js ''u'', source_title = js ''B'', source_content = None\<rparr>]
   = [\<lparr>uri = js ''u'', source_title = js ''B'', source_content = None\<rparr>]
   \<and> js ''A'' \<noteq> js ''B''"
  by (simp add: dedup_sources_def new_Map_def Map_values_def js_def)

text \<open>
  C5 (amended): deduplication by URI leaves one entry for each URI, in the order in which
  the URIs were first seen; the entry kept for a URI is the last one seen with that URI;
  a list whose URIs are all distinct is returned as it is.
\<close>

theorem dedup_sources_last_seen:
  "map uri (dedup_sources xs) = rev (remdups (rev (map uri xs)))
   \<and> distinct (map uri (dedup_sources xs))
   \<and> (\<forall>e \<in> set (dedup_sources xs). e = last (filter (\<lambda>s. uri s = uri e) xs))
   \<and> (distinct (map uri xs) \<longrightarrow> dedup_sources xs = xs)"
proof -
  have "distinct (map uri xs) \<Longrightarrow> dedup_sources xs = xs"
  proof -
    assume "distinct (map uri xs)"
    then have "distinct (map fst (map (\<lambda>s. (uri s, s)) xs))"
      by (simp add: comp_def)
    then have "new_Map (map (\<lambda>s. (uri s, s)) xs) = map (\<lambda>s. (uri s, s)) xs"
      by (rule new_Map_id)
    then show ?thesis
      by (simp add: dedup_sources_def Map_values_def comp_def)
  qed
  then show ?thesis
    using dedup_sources_entry by (simp add: dedup_sources_uris)
qed

theorem dedup_sources_last_seen_witness:
  "distinct (map uri [\<lparr>uri = js ''u'', source_title = js ''A'', source_content = None\<rparr>,
                      \<lparr>uri = js ''v'', source_title = js ''B'', source_content = None\<rparr>])
   \<and> dedup_sources [\<lparr>uri = js ''u'', source_title = js ''A'', source_content = None\<rparr>,
                     \<lparr>uri = js ''v'', source_title = js ''B'', source_content = None\<rparr>]
     = [\<lparr>uri = js ''u'', source_title = js ''A'', source_content = None\<rparr>,
        \<lparr>uri = js ''v'', source_title = js ''B'', source_content = None\<rparr>]
   \<and> \<lparr>uri = js ''u'', source_title = js ''B'', source_content = None\<rparr>
       \<in> set (dedup_sources
          [\<lparr>uri = js ''u'', source_title = js ''A'', source_content = None\<rparr>,
           \<lparr>uri = js ''u'', source_title = js ''B'', source_content = None\<rparr>])
   \<and> \<lparr>uri = js ''u'', source_title = js ''B'', source_content = None\<rparr>
       = last (filter (\<lambda>s. uri s = js ''u'')
          [\<lparr>uri = js ''u'', source_title = js ''A'', source_content = None\<rparr>,
           \<lparr>uri = js ''u'', source_title = js ''B'', source_content = None\<rparr>])"
  using dedup_sources_last_seen
          [of "[\<lparr>uri = js ''u'', source_title = js ''A'', source_content = None\<rparr>,
                \<lparr>uri = js ''v'', source_title = js ''B'', source_content = None\<rparr>]"]
        dedup_sources_last_seen
          [of "[\<lparr>uri = js ''u'', source_title = js ''A'', source_content = None\<rparr>,
                \<lparr>uri = js ''u'', source_title = js ''B'', source_content = None\<rparr>]"]
  by (simp add: js_def dedup_sources_def new_Map_def Map_values_def)

text \<open>
  C7 (as stated): for every session list, deleting a session removes exactly that session,
  and with two sessions the other one becomes active. Nothing keeps two sessions from
  carrying one id (the id is the clock reading at creation, and loading checks none):
  deleting one of two such sessions removes both and leaves no active session.
\<close>

theorem handleDeleteSession_shared_id_counterexample:
  "length (sessions
      \<lparr>sessions = [createNewSession 5, (createNewSession 5)\<lparr>title := js ''Notes''\<rparr>],
       activeSessionId = Some (show_int 5), studyMode = ModeChat, isLoading = False,
       notifications = []\<rparr>) = 2
   \<and> createNewSession 5 \<noteq> (createNewSession 5)\<lparr>title := js ''Notes''\<rparr>
   \<and> sessions (handleDeleteSession (show_int 5)
        \<lparr>sessions = [createNewSession 5, (createNewSession 5)\<lparr>title := js ''Notes''\<rparr>],
         activeSessionId = Some (show_int 5), studyMode = ModeChat, isLoading = False,
         notifications = []\<rparr>)
       = []
   \<and> remove1 (createNewSession 5)
        [createNewSession 5, (createNewSession 5)\<lparr>title := js ''Notes''\<rparr>]
       = [(createNewSession 5)\<lparr>title := js ''Notes''\<rparr>]
   \<and> activeSessionId (handleDeleteSession (show_int 5)
        \<lparr>sessions = [createNewSession 5, (createNewSession 5)\<lparr>title := js ''Notes''\<rparr>],
         activeSessionId = Some (show_int 5), studyMode = ModeChat, isLoading = False,
         notifications = []\<rparr>)
       = None"
  by (simp add: createNewSession_def handleDeleteSession_def js_def)

text \<open>
  C7 (amended): deleting a session removes the sessions that carry its id and keeps the
  others in their order; when the ids of the list are pairwise distinct that is exactly
  the one session. If the deleted session was the active one, the active session becomes
  none when no session remains, and otherwise a remaining session whose \<open>updatedAt\<close> no
  other remaining session exceeds; of two sessions with different ids the other one
  remains and becomes active. If it was not the active one, the active session stays.
\<close>

theorem handleDeleteSession_removes_and_reselects:
  "sessions (handleDeleteSession sessionId st)
     = filter (\<lambda>s. session_id s \<noteq> sessionId) (sessions st)
   \<and> (distinct (map session_id (sessions st)) \<longrightarrow>
        (\<forall>s \<in> set (sessions st). session_id s = sessionId \<longrightarrow>
           sessions (handleDeleteSession sessionId st) = remove1 s (sessions st)))
   \<and> (activeSessionId st = Some sessionId \<longrightarrow>
        (if sessions (handleDeleteSession sessionId st) = []
         then activeSessionId (handleDeleteSession sessionId st) = None
         else \<exists>m \<in> set (sessions (handleDeleteSession sessionId st)).
                activeSessionId (handleDeleteSession sessionId st) = Some (session_id m)
                \<and> (\<forall>s \<in> set (sessions (handleDeleteSession sessionId st)).
                      updatedAt s \<le> updatedAt m)))
   \<and> (\<forall>a b. sessions st = [a, b] \<and> session_id a \<noteq> session_id b
          \<and> activeSessionId st = Some sessionId \<longrightarrow>
        (sessionId = session_id a \<longrightarrow>
           sessions (handleDeleteSession sessionId st) = [b]
           \<and> activeSessionId (handleDeleteSession sessionId st) = Some (session_id b))
        \<and> (sessionId = session_id b \<longrightarrow>
           sessions (handleDeleteSession sessionId st) = [a]
           \<and> activeSessionId (handleDeleteSession sessionId st) = Some (session_id a)))
   \<and> (activeSessionId st \<noteq> Some sessionId \<longrightarrow>
        activeSessionId (handleDeleteSession sessionId st) = activeSessionId st)"
proof -
  have a: "sessions (handleDeleteSession sessionId st)
             = filter (\<lambda>s. session_id s \<noteq> sessionId) (sessions st)"
    by (rule handleDeleteSession_sessions)
  have b: "distinct (map session_id (sessions st)) \<longrightarrow>
        (\<forall>s \<in> set (sessions st). session_id s = sessionId \<longrightarrow>
           sessions (handleDeleteSession sessionId st) = remove1 s (sessions st))"
    using filter_remove1_distinct [of session_id "sessions st"]
    by (auto simp: handleDeleteSession_sessions)
  have c: "activeSessionId st = Some sessionId \<longrightarrow>
        (if sessions (handleDeleteSession sessionId st) = []
         then activeSessionId (handleDeleteSession sessionId st) = None
         else \<exists>m \<in> set (sessions (handleDeleteSession sessionId st)).
                activeSessionId (handleDeleteSession sessionId st) = Some (session_id m)
                \<and> (\<forall>s \<in> set (sessions (handleDeleteSession sessionId st)).
                      updatedAt s \<le> updatedAt m))"
    using handleDeleteSession_latest [of st sessionId] by blast
  have d: "activeSessionId st \<noteq> Some sessionId \<longrightarrow>
        activeSessionId (handleDeleteSession sessionId st) = activeSessionId st"
    using handleDeleteSession_other [of st sessionId] by blast
  have e: "\<forall>a b. sessions st = [a, b] \<and> session_id a \<noteq> session_id b
          \<and> activeSessionId st = Some sessionId \<longrightarrow>
        (sessionId = session_id a \<longrightarrow>
           sessions (handleDeleteSession sessionId st) = [b]
           \<and> activeSessionId (handleDeleteSession sessionId st) = Some (session_id b))
        \<and> (sessionId = session_id b \<longrightarrow>
           sessions (handleDeleteSession sessionId st) = [a]
           \<and> activeSessionId (handleDeleteSession sessionId st) = Some (session_id a))"
    using handleDeleteSession_two [of st _ _ sessionId] by blast
  show ?thesis
    by (intro conjI a b c e d)
qed

theorem handleDeleteSession_removes_and_reselects_witness:
  "distinct (map session_id [createNewSession 5, createNewSession 3, createNewSession 9])
   \<and> sessions (handleDeleteSession (show_int 5)
        \<lparr>sessions = [createNewSession 5, createNewSession 3, createNewSession 9],
         activeSessionId = Some (show_int 5), studyMode = ModeChat, isLoading = False,
         notifications = []\<rparr>)
       = [createNewSession 3, createNewSession 9]
   \<and> activeSessionId (handleDeleteSession (show_int 5)
        \<lparr>sessions = [createNewSession 5, createNewSession 3, createNewSession 9],
         activeSessionId = Some (show_int 5), studyMode = ModeChat, isLoading = False,
         notifications = []\<rparr>)
       = Some (show_int 9)
   \<and> activeSessionId (handleDeleteSession (show_int 5)
        \<lparr>sessions = [createNewSession 5, createNewSession 3],
         activeSessionId = Some (show_int 5), studyMode = ModeChat, isLoading = False,
         notifications = []\<rparr>)
       = Some (show_int 3)
   \<and> activeSessionId (handleDeleteSession (show_int 5)
        \<lparr>sessions = [createNewSession 5], activeSessionId = Some (show_int 5),
         studyMode = ModeChat, isLoading = False, notifications = []\<rparr>)
       = None
   \<and> activeSessionId (handleDeleteSession (show_int 3)
        \<lparr>sessions = [createNewSession 5, createNewSession 3],
         activeSessionId = Some (show_int 5), studyMode = ModeChat, isLoading = False,
         notifications = []\<rparr>)
       = Some (show_int 5)"
proof -
  have ids: "show_int 5 = [53]" "show_int 3 = [51]" "show_int 9 = [57]"
    by (simp_all add: show_int_def show_nat.simps)
  show ?thesis
    using handleDeleteSession_removes_and_reselects [of "show_int 5"
            "\<lparr>sessions = [createNewSession 5, createNewSession 3, createNewSession 9],
              activeSessionId = Some (show_int 5), studyMode = ModeChat, isLoading = False,
              notifications = []\<rparr>"]
          handleDeleteSession_removes_and_reselects [of "show_int 5"
            "\<lparr>sessions = [createNewSession 5], activeSessionId = Some (show_int 5),
              studyMode = ModeChat, isLoading = False, notifications = []\<rparr>"]
          handleDeleteSession_removes_and_reselects [of "show_int 3"
            "\<lparr>sessions = [createNewSession 5, createNewSession 3],
              activeSessionId = Some (show_int 5), studyMode = ModeChat, isLoading = False,
              notifications = []\<rparr>"]
    by (simp add: ids createNewSession_def handleDeleteSession_def)
qed

text \<open>
  C8 (as stated): every mutation of a session refreshes its \<open>updatedAt\<close>. The chunk
  update does not: the session created at time 1 takes the fragment into its placeholder
  and keeps \<open>updatedAt = 1\<close>.
\<close>

theorem onChunk_keeps_updatedAt_counterexample:
  "onChunk (show_int 1) (js ''x'') [(createNewSession 1)\<lparr>messages := [placeholderMessage 2]\<rparr>]
     = Inr [(createNewSession 1)
              \<lparr>messages := [(placeholderMessage 2)\<lparr>content := js ''x''\<rparr>]\<rparr>]
   \<and> updatedAt ((createNewSession 1)
        \<lparr>messages := [(placeholderMessage 2)\<lparr>content := js ''x''\<rparr>]\<rparr>) = 1"
  by (simp add: onChunk_def onChunk_session_def last_message_def createNewSession_def
      placeholderMessage_def)

text \<open>
  C8 (amended): the final update of the reconciled message sets \<open>updatedAt\<close> of the
  target session to the time of the update, and so does \<open>updateActiveSession\<close> for the
  active session, with a partial-field update as with a transform.
\<close>

theorem updatedAt_refreshed:
  "(session_id s = sessionId \<longrightarrow>
      updatedAt (finalize_session sessionId r srcs now s) = now)
   \<and> (activeSessionId st = Some active \<and> active \<noteq> [] \<longrightarrow>
        length (sessions (updateActiveSession update now st)) = length (sessions st)
        \<and> (\<forall>i < length (sessions st). session_id (sessions st ! i) = active \<longrightarrow>
              updatedAt (sessions (updateActiveSession update now st) ! i) = now))"
  by (simp add: finalize_session_def updateActiveSession_def)

theorem updatedAt_refreshed_witness:
  "session_id (createNewSession 1) = show_int 1
   \<and> updatedAt (finalize_session (show_int 1) (plain_text (js ''answer'')) [] 9
        ((createNewSession 1)\<lparr>messages := [placeholderMessage 2]\<rparr>)) = 9
   \<and> Some (show_int 1) = Some (show_int 1) \<and> show_int 1 \<noteq> []
   \<and> (0::nat) < length [createNewSession 1]
   \<and> updatedAt (sessions (updateActiveSession
        (Transform (\<lambda>s. s\<lparr>messages := take 0 (messages s)\<rparr>)) 9
        \<lparr>sessions = [createNewSession 1], activeSessionId = Some (show_int 1),
         studyMode = ModeChat, isLoading = False, notifications = []\<rparr>) ! 0) = 9
   \<and> updatedAt (sessions (updateActiveSession
        (Partial \<lparr>p_id = None, p_title = Some (js ''Biology''), p_createdAt = None,
                  p_updatedAt = Some 4, p_messages = None, p_flashcards = None,
                  p_flashcardsTitle = None, p_quizItems = None, p_quizTitle = None,
                  p_slides = None, p_slidesTitle = None, p_documentContext = None,
                  p_documentSummary = None\<rparr>) 9
        \<lparr>sessions = [createNewSession 1], activeSessionId = Some (show_int 1),
         studyMode = ModeChat, isLoading = False, notifications = []\<rparr>) ! 0) = 9"
proof -
  have ids: "show_int 1 = [49]"
    by (simp add: show_int_def show_nat.simps)
  show ?thesis
    using updatedAt_refreshed [of "(createNewSession 1)\<lparr>messages := [placeholderMessage 2]\<rparr>"
            "show_int 1" "plain_text (js ''answer'')" "[]" 9
            "\<lparr>sessions = [createNewSession 1], activeSessionId = Some (show_int 1),
              studyMode = ModeChat, isLoading = False, notifications = []\<rparr>"
            "show_int 1" "Transform (\<lambda>s. s\<lparr>messages := take 0 (messages s)\<rparr>)"]
          updatedAt_refreshed [of "(createNewSession 1)\<lparr>messages := [placeholderMessage 2]\<rparr>"
            "show_int 1" "plain_text (js ''answer'')" "[]" 9
            "\<lparr>sessions = [createNewSession 1], activeSessionId = Some (show_int 1),
              studyMode = ModeChat, isLoading = False, notifications = []\<rparr>"
            "show_int 1"
            "Partial \<lparr>p_id = None, p_title = Some (js ''Biology''), p_createdAt = None,
                  p_updatedAt = Some 4, p_messages = None, p_flashcards = None,
                  p_flashcardsTitle = None, p_quizItems = None, p_quizTitle = None,
                  p_slides = None, p_slidesTitle = None, p_documentContext = None,
                  p_documentSummary = None\<rparr>"]
    by (simp add: ids createNewSession_def)
qed

text \<open>
  C9: a chunk that targets a session whose message list has become empty. The session
  below holds the error message of a failed turn, the next user message and the
  placeholder of the response that is streaming; the user deletes from the first message
  on (\<open>handleDeleteMessage 0\<close>). The next chunk update raises a \<open>TypeError\<close> instead of
  leaving the session as it is.
\<close>

theorem onChunk_empty_messages_raises:
  "sessions (handleDeleteMessage 0 7
      \<lparr>sessions =
         [(createNewSession 1)\<lparr>messages :=
            [\<lparr>role = Some Assistant, content = js ''Sorry'', msg_image = None,
              sources = None, timestamp = Some 2, useWebSearch = None\<rparr>,
             \<lparr>role = Some User, content = js ''hi'', msg_image = None,
              sources = None, timestamp = Some 5, useWebSearch = Some False\<rparr>,
             (placeholderMessage 6)\<lparr>content := js ''He''\<rparr>]\<rparr>],
       activeSessionId = Some (show_int 1), studyMode = ModeChat, isLoading = True,
       notifications = []\<rparr>)
     = [(createNewSession 1)\<lparr>updatedAt := 7\<rparr>]
   \<and> onChunk (show_int 1) (js ''llo'') [(createNewSession 1)\<lparr>updatedAt := 7\<rparr>]
     = Inl TypeError"
proof -
  have ids: "show_int 1 = [49]"
    by (simp add: show_int_def show_nat.simps)
  show ?thesis
    by (simp add: ids createNewSession_def handleDeleteMessage_def activeSession_def
        updateActiveSession_def onChunk_def onChunk_session_def last_message_def)
qed

text \<open>
  C10: a final transcript that starts with white space. The keyword \<open>ask\<close> matches the
  trimmed, lower-cased text, but the argument is cut from the untrimmed text at the
  length of \<open>ask\<close> and its space: \<open>handleSendMessage\<close> receives \<open>k hi\<close>, not the
  remainder \<open>hi\<close> of the utterance.
\<close>

theorem processTranscript_leading_space:
  "processTranscript lower voiceCommands dynamicVoiceCommands (js ''  ask hi'')
     = Inr [DynamicAction HandleSendMessage (js ''k hi''), StopListening]"
  by (simp add: processTranscript_def voiceCommands_def dynamicVoiceCommands_def js_def
      read_command_def trim_def toLowerCase_def toLowerCase_unit_def is_whitespace_def
      startsWith_def)

text \<open>
  C1: the stream text is exactly one fenced json block whose contents parse to an object
  with the string title \<open>T\<close> and a non-empty \<open>flashcards\<close> array (and no non-empty
  \<open>slides\<close> array). Then the target session gets a message that reads
  \<open>I've created the "T" for you.\<close>, its flashcards slot is the parsed array, its
  flashcards title is \<open>T\<close>, and the display mode is flashcards.
\<close>

theorem flashcards_block_reconciled:
  assumes "json_match (stream_text stream) = Some (stream_text stream, match1)"
    and "JSON_parse match1 = Some parsedJson"
    and "get_prop parsedJson (js ''title'') = Some (JStr T)"
    and "get_prop parsedJson (js ''flashcards'') = Some (JArr (item # items))"
    and "\<not> nonempty_array (get_prop parsedJson (js ''slides''))"
  shows "processResponse nts sessionId stream Completed t0 t1 st
     = Inr (st\<lparr>sessions :=
               map (\<lambda>s. if session_id s = sessionId
                         then s\<lparr>messages := messages s @
                                  [(placeholderMessage t0)
                                     \<lparr>content := js ''I've created the \"'' @ T @ js ''\" for you.'',
                                      sources := Some (dedup_sources (stream_sources stream))\<rparr>],
                                flashcards := item # items,
                                flashcardsTitle := JStr T,
                                quizItems :=
                                  (if nonempty_array (get_prop parsedJson (js ''quiz''))
                                   then array_items (get_prop parsedJson (js ''quiz''))
                                   else quizItems s),
                                quizTitle :=
                                  (if nonempty_array (get_prop parsedJson (js ''quiz''))
                                   then JStr T else quizTitle s),
                                updatedAt := t1\<rparr>
                         else s) (sessions st),
             studyMode := ModeFlashcards,
             isLoading := False\<rparr>)"
proof -
  have nn: "parsedJson \<noteq> JNull"
    using assms(3) by (auto simp: get_prop_def)
  have ne: "nonempty_array (get_prop parsedJson (js ''flashcards''))"
    and its: "array_items (get_prop parsedJson (js ''flashcards'')) = item # items"
    using assms(4) by (simp_all add: nonempty_array_def array_items_def)
  have title: "aid_title parsedJson = JStr T"
    using assms(3) by (cases "T = []") (simp_all add: aid_title_def to_boolean_def)
  show ?thesis
    unfolding processResponse_parsed [OF assms(1,2) nn] fallback_text [OF assms(3) ne]
    using assms(5) ne
    by (simp add: its title cong: map_cong)
qed

theorem flashcards_block_reconciled_witness:
  "json_match (stream_text
        [\<lparr>chunk_text = Some (js ''```json\<newline>{\"title\":\"T\",''), groundingChunks = None\<rparr>,
         \<lparr>chunk_text = Some (js ''\"flashcards\":[{\"question\":\"Q\",\"answer\":\"A\",\"context\":\"C\"}]}\<newline>```''),
          groundingChunks = None\<rparr>])
     = Some (stream_text
        [\<lparr>chunk_text = Some (js ''```json\<newline>{\"title\":\"T\",''), groundingChunks = None\<rparr>,
         \<lparr>chunk_text = Some (js ''\"flashcards\":[{\"question\":\"Q\",\"answer\":\"A\",\"context\":\"C\"}]}\<newline>```''),
          groundingChunks = None\<rparr>],
        js ''{\"title\":\"T\",\"flashcards\":[{\"question\":\"Q\",\"answer\":\"A\",\"context\":\"C\"}]}'')
   \<and> JSON_parse (js ''{\"title\":\"T\",\"flashcards\":[{\"question\":\"Q\",\"answer\":\"A\",\"context\":\"C\"}]}'')
     = Some (JObj [(js ''title'', JStr (js ''T'')),
                   (js ''flashcards'',
                    JArr [JObj [(js ''question'', JStr (js ''Q'')),
                                (js ''answer'', JStr (js ''A'')),
                                (js ''context'', JStr (js ''C''))]])])
   \<and> processResponse (\<lambda>m e. []) (show_int 1)
        [\<lparr>chunk_text = Some (js ''```json\<newline>{\"title\":\"T\",''), groundingChunks = None\<rparr>,
         \<lparr>chunk_text = Some (js ''\"flashcards\":[{\"question\":\"Q\",\"answer\":\"A\",\"context\":\"C\"}]}\<newline>```''),
          groundingChunks = None\<rparr>] Completed 2 3
        \<lparr>sessions = [createNewSession 1], activeSessionId = Some (show_int 1),
         studyMode = ModeChat, isLoading = True, notifications = []\<rparr>
     = Inr \<lparr>sessions =
              [(createNewSession 1)
                 \<lparr>messages := [(placeholderMessage 2)
                                  \<lparr>content := js ''I've created the \"T\" for you.''\<rparr>],
                  flashcards := [JObj [(js ''question'', JStr (js ''Q'')),
                                       (js ''answer'', JStr (js ''A'')),
                                       (js ''context'', JStr (js ''C''))]],
                  flashcardsTitle := JStr (js ''T''),
                  updatedAt := 3\<rparr>],
            activeSessionId = Some (show_int 1), studyMode = ModeFlashcards, isLoading = False,
            notifications = []\<rparr>"
proof -
  let ?stream = "[\<lparr>chunk_text = Some (js ''```json\<newline>{\"title\":\"T\",''), groundingChunks = None\<rparr>,
         \<lparr>chunk_text = Some (js ''\"flashcards\":[{\"question\":\"Q\",\"answer\":\"A\",\"context\":\"C\"}]}\<newline>```''),
          groundingChunks = None\<rparr>]"
  let ?inner = "js ''{\"title\":\"T\",\"flashcards\":[{\"question\":\"Q\",\"answer\":\"A\",\"context\":\"C\"}]}''"
  let ?obj = "JObj [(js ''title'', JStr (js ''T'')),
                   (js ''flashcards'',
                    JArr [JObj [(js ''question'', JStr (js ''Q'')),
                                (js ''answer'', JStr (js ''A'')),
                                (js ''context'', JStr (js ''C''))]])]"
  have m: "json_match (stream_text ?stream) = Some (stream_text ?stream, ?inner)"
    by (simp add: stream_text_def or_empty_def json_match_def js_def startsWith_def trim_def
        is_whitespace_def)
  have p: "JSON_parse ?inner = Some ?obj"
    by code_simp
  have t: "get_prop ?obj (js ''title'') = Some (JStr (js ''T''))"
    by (simp add: get_prop_def js_def)
  have f: "get_prop ?obj (js ''flashcards'')
             = Some (JArr (JObj [(js ''question'', JStr (js ''Q'')),
                                 (js ''answer'', JStr (js ''A'')),
                                 (js ''context'', JStr (js ''C''))] # []))"
    by (simp add: get_prop_def js_def)
  have q: "\<not> nonempty_array (get_prop ?obj (js ''quiz''))"
    and sl: "\<not> nonempty_array (get_prop ?obj (js ''slides''))"
    by (simp_all add: get_prop_def nonempty_array_def js_def)
  have srcs: "dedup_sources (stream_sources ?stream) = []"
    by (simp add: stream_sources_def chunkSources_def dedup_sources_def new_Map_def Map_values_def)
  have ids: "show_int 1 = [49]"
    by (simp add: show_int_def show_nat.simps)
  have sentence: "js ''I've created the \"'' @ js ''T'' @ js ''\" for you.''
                    = js ''I've created the \"T\" for you.''"
    by (simp add: js_def)
  have r: "processResponse (\<lambda>m e. []) (show_int 1) ?stream Completed 2 3
        \<lparr>sessions = [createNewSession 1], activeSessionId = Some (show_int 1),
         studyMode = ModeChat, isLoading = True, notifications = []\<rparr>
     = Inr \<lparr>sessions =
              [(createNewSession 1)
                 \<lparr>messages := [(placeholderMessage 2)
                                  \<lparr>content := js ''I've created the \"T\" for you.''\<rparr>],
                  flashcards := [JObj [(js ''question'', JStr (js ''Q'')),
                                       (js ''answer'', JStr (js ''A'')),
                                       (js ''context'', JStr (js ''C''))]],
                  flashcardsTitle := JStr (js ''T''),
                  updatedAt := 3\<rparr>],
            activeSessionId = Some (show_int 1), studyMode = ModeFlashcards, isLoading = False,
            notifications = []\<rparr>"
    unfolding flashcards_block_reconciled [OF m p t f sl] using q
    by (simp add: srcs ids sentence createNewSession_def placeholderMessage_def)
  show ?thesis
    using m p r by (intro conjI)
qed

text \<open>
  C2: when the concatenation of the fragments holds no fenced json block, the response
  ends with the target session holding one more message whose content is that
  concatenation; apart from the message and the timestamp the session is as it was, and
  so are the display mode and the notifications.
\<close>

theorem no_fence_keeps_text:
  assumes "\<not> has_fenced_json (stream_text stream)"
  shows "processResponse nts sessionId stream Completed t0 t1 st
     = Inr (st\<lparr>sessions :=
               map (\<lambda>s. if session_id s = sessionId
                         then s\<lparr>messages := messages s @
                                  [(placeholderMessage t0)
                                     \<lparr>content := stream_text stream,
                                      sources := Some (dedup_sources (stream_sources stream))\<rparr>],
                                updatedAt := t1\<rparr>
                         else s) (sessions st),
             isLoading := False\<rparr>)"
proof -
  have "json_match (stream_text stream) = None"
    using assms by (simp add: json_match_None_iff)
  then have "reconcile nts (stream_text stream) = plain_text (stream_text stream)"
    by (simp add: reconcile_def)
  then show ?thesis
    by (rule processResponse_plain)
qed


theorem no_fence_keeps_text_witness:
  "\<not> has_fenced_json (stream_text
        [\<lparr>chunk_text = Some (js ''Hel''), groundingChunks = None\<rparr>,
         \<lparr>chunk_text = Some (js ''lo''), groundingChunks = None\<rparr>])
   \<and> processResponse (\<lambda>m e. []) (show_int 1)
        [\<lparr>chunk_text = Some (js ''Hel''), groundingChunks = None\<rparr>,
         \<lparr>chunk_text = Some (js ''lo''), groundingChunks = None\<rparr>] Completed 2 3
        \<lparr>sessions = [createNewSession 1], activeSessionId = Some (show_int 1),
         studyMode = ModeChat, isLoading = True, notifications = []\<rparr>
     = Inr \<lparr>sessions =
              [(createNewSession 1)
                 \<lparr>messages := [(placeholderMessage 2)\<lparr>content := js ''Hello''\<rparr>],
                  updatedAt := 3\<rparr>],
            activeSessionId = Some (show_int 1), studyMode = ModeChat, isLoading = False,
            notifications = []\<rparr>"
proof -
  let ?stream = "[\<lparr>chunk_text = Some (js ''Hel''), groundingChunks = None\<rparr>,
                  \<lparr>chunk_text = Some (js ''lo''), groundingChunks = None\<rparr>]"
  have acc: "stream_text ?stream = js ''Hello''"
    by (simp add: stream_text_def or_empty_def js_def)
  have "json_match (js ''Hello'') = None"
    by (simp add: json_match_def js_def startsWith_def)
  then have nf: "\<not> has_fenced_json (stream_text ?stream)"
    by (simp add: acc json_match_None_iff)
  have srcs: "dedup_sources (stream_sources ?stream) = []"
    by (simp add: stream_sources_def chunkSources_def dedup_sources_def new_Map_def Map_values_def)
  have ids: "show_int 1 = [49]"
    by (simp add: show_int_def show_nat.simps)
  show ?thesis
    using nf no_fence_keeps_text [OF nf, of "\<lambda>m e. []" "show_int 1" 2 3
        "\<lparr>sessions = [createNewSession 1], activeSessionId = Some (show_int 1),
          studyMode = ModeChat, isLoading = True, notifications = []\<rparr>"]
    by (simp add: acc srcs ids createNewSession_def placeholderMessage_def)
qed


text \<open>
  C3: when the stream text holds a fenced json block whose contents do not parse, the
  message content is the whole stream text, fence included; no study-aid slot and no
  title changes, the display mode stays, and no notification is added.
\<close>

theorem malformed_json_keeps_text:
  assumes "json_match (stream_text stream) = Some (match0, match1)"
    and "JSON_parse match1 = None"
  shows "processResponse nts sessionId stream Completed t0 t1 st
     = Inr (st\<lparr>sessions :=
               map (\<lambda>s. if session_id s = sessionId
                         then s\<lparr>messages := messages s @
                                  [(placeholderMessage t0)
                                     \<lparr>content := stream_text stream,
                                      sources := Some (dedup_sources (stream_sources stream))\<rparr>],
                                updatedAt := t1\<rparr>
                         else s) (sessions st),
             isLoading := False\<rparr>)"
proof -
  have "reconcile nts (stream_text stream) = plain_text (stream_text stream)"
    using assms by (simp add: reconcile_def)
  then show ?thesis
    by (rule processResponse_plain)
qed

theorem malformed_json_keeps_text_witness:
  "json_match (stream_text
        [\<lparr>chunk_text = Some (js ''See: ```json {\"a\":1,}''), groundingChunks = None\<rparr>,
         \<lparr>chunk_text = Some (js '' ```''), groundingChunks = None\<rparr>])
     = Some (js ''```json {\"a\":1,} ```'', js ''{\"a\":1,}'')
   \<and> JSON_parse (js ''{\"a\":1,}'') = None
   \<and> processResponse (\<lambda>m e. []) (show_int 1)
        [\<lparr>chunk_text = Some (js ''See: ```json {\"a\":1,}''), groundingChunks = None\<rparr>,
         \<lparr>chunk_text = Some (js '' ```''), groundingChunks = None\<rparr>] Completed 2 3
        \<lparr>sessions = [createNewSession 1], activeSessionId = Some (show_int 1),
         studyMode = ModeChat, isLoading = True, notifications = []\<rparr>
     = Inr \<lparr>sessions =
              [(createNewSession 1)
                 \<lparr>messages := [(placeholderMessage 2)
                                  \<lparr>content := js ''See: ```json {\"a\":1,} ```''\<rparr>],
                  updatedAt := 3\<rparr>],
            activeSessionId = Some (show_int 1), studyMode = ModeChat, isLoading = False,
            notifications = []\<rparr>"
proof -
  let ?stream = "[\<lparr>chunk_text = Some (js ''See: ```json {\"a\":1,}''), groundingChunks = None\<rparr>,
                  \<lparr>chunk_text = Some (js '' ```''), groundingChunks = None\<rparr>]"
  have acc: "stream_text ?stream = js ''See: ```json {\"a\":1,} ```''"
    by (simp add: stream_text_def or_empty_def js_def)
  have m: "json_match (js ''See: ```json {\"a\":1,} ```'')
             = Some (js ''```json {\"a\":1,} ```'', js ''{\"a\":1,}'')"
    by (simp add: json_match_def js_def startsWith_def trim_def is_whitespace_def)
  have p: "JSON_parse (js ''{\"a\":1,}'') = None"
    by code_simp
  have srcs: "dedup_sources (stream_sources ?stream) = []"
    by (simp add: stream_sources_def chunkSources_def dedup_sources_def new_Map_def Map_values_def)
  have ids: "show_int 1 = [49]"
    by (simp add: show_int_def show_nat.simps)
  have m': "json_match (stream_text ?stream)
             = Some (js ''```json {\"a\":1,} ```'', js ''{\"a\":1,}'')"
    by (simp only: acc m)
  show ?thesis
    using m' p malformed_json_keeps_text [OF m' p, of "\<lambda>m e. []" "show_int 1" 2 3
        "\<lparr>sessions = [createNewSession 1], activeSessionId = Some (show_int 1),
          studyMode = ModeChat, isLoading = True, notifications = []\<rparr>"]
    by (simp add: acc srcs ids createNewSession_def placeholderMessage_def)
qed


text \<open>
  C4: the fenced JSON parsed to a value other than \<open>null\<close>. Each of \<open>quiz\<close>,
  \<open>flashcards\<close> and \<open>slides\<close> that is a non-empty array replaces its slot and, with
  the title of the JSON, the slot's title; the other slots stay. The display mode is the
  last one assigned: slides if present, else flashcards, else quiz, else the mode as it
  was.
\<close>

theorem several_aids_last_wins:
  assumes "json_match (stream_text stream) = Some (match0, match1)"
    and "JSON_parse match1 = Some parsedJson" and "parsedJson \<noteq> JNull"
  shows "processResponse nts sessionId stream Completed t0 t1 st
     = Inr (st\<lparr>sessions :=
               map (\<lambda>s. if session_id s = sessionId
                         then s\<lparr>messages := messages s @
                                  [(placeholderMessage t0)
                                     \<lparr>content := finalText (extract_aids nts (stream_text stream)
                                                    match0 parsedJson),
                                      sources := Some (dedup_sources (stream_sources stream))\<rparr>],
                                flashcards :=
                                  (if nonempty_array (get_prop parsedJson (js ''flashcards''))
                                   then array_items (get_prop parsedJson (js ''flashcards''))
                                   else flashcards s),
                                flashcardsTitle :=
                                  (if nonempty_array (get_prop parsedJson (js ''flashcards''))
                                   then aid_title parsedJson else flashcardsTitle s),
                                quizItems :=
                                  (if nonempty_array (get_prop parsedJson (js ''quiz''))
                                   then array_items (get_prop parsedJson (js ''quiz''))
                                   else quizItems s),
                                quizTitle :=
                                  (if nonempty_array (get_prop parsedJson (js ''quiz''))
                                   then aid_title parsedJson else quizTitle s),
                                slides :=
                                  (if nonempty_array (get_prop parsedJson (js ''slides''))
                                   then array_items (get_prop parsedJson (js ''slides''))
                                   else slides s),
                                slidesTitle :=
                                  (if nonempty_array (get_prop parsedJson (js ''slides''))
                                   then aid_title parsedJson else slidesTitle s),
                                updatedAt := t1\<rparr>
                         else s) (sessions st),
             studyMode :=
               (if nonempty_array (get_prop parsedJson (js ''slides'')) then ModeSlides
                else if nonempty_array (get_prop parsedJson (js ''flashcards'')) then ModeFlashcards
                else if nonempty_array (get_prop parsedJson (js ''quiz'')) then ModeQuiz
                else studyMode st),
             isLoading := False\<rparr>)"
  using assms by (rule processResponse_parsed)

theorem several_aids_last_wins_witness:
  "json_match (stream_text
        [\<lparr>chunk_text = Some (js ''All three: ```json {\"title\":\"T\",\"quiz\":[1],''),
          groundingChunks = None\<rparr>,
         \<lparr>chunk_text = Some (js ''\"flashcards\":[2],\"slides\":[3]} ```''),
          groundingChunks = None\<rparr>])
     = Some (js ''```json {\"title\":\"T\",\"quiz\":[1],\"flashcards\":[2],\"slides\":[3]} ```'',
             js ''{\"title\":\"T\",\"quiz\":[1],\"flashcards\":[2],\"slides\":[3]}'')
   \<and> JSON_parse (js ''{\"title\":\"T\",\"quiz\":[1],\"flashcards\":[2],\"slides\":[3]}'')
     = Some (JObj [(js ''title'', JStr (js ''T'')), (js ''quiz'', JArr [JNum 1 0]),
                   (js ''flashcards'', JArr [JNum 2 0]), (js ''slides'', JArr [JNum 3 0])])
   \<and> JObj [(js ''title'', JStr (js ''T'')), (js ''quiz'', JArr [JNum 1 0]),
            (js ''flashcards'', JArr [JNum 2 0]), (js ''slides'', JArr [JNum 3 0])] \<noteq> JNull
   \<and> processResponse (\<lambda>m e. []) (show_int 1)
        [\<lparr>chunk_text = Some (js ''All three: ```json {\"title\":\"T\",\"quiz\":[1],''),
          groundingChunks = None\<rparr>,
         \<lparr>chunk_text = Some (js ''\"flashcards\":[2],\"slides\":[3]} ```''),
          groundingChunks = None\<rparr>] Completed 2 3
        \<lparr>sessions = [createNewSession 1], activeSessionId = Some (show_int 1),
         studyMode = ModeChat, isLoading = True, notifications = []\<rparr>
     = Inr \<lparr>sessions =
              [(createNewSession 1)
                 \<lparr>messages := [(placeholderMessage 2)\<lparr>content := js ''All three:''\<rparr>],
                  flashcards := [JNum 2 0], flashcardsTitle := JStr (js ''T''),
                  quizItems := [JNum 1 0], quizTitle := JStr (js ''T''),
                  slides := [JNum 3 0], slidesTitle := JStr (js ''T''),
                  updatedAt := 3\<rparr>],
            activeSessionId = Some (show_int 1), studyMode = ModeSlides, isLoading = False,
            notifications = []\<rparr>"
proof -
  let ?stream = "[\<lparr>chunk_text = Some (js ''All three: ```json {\"title\":\"T\",\"quiz\":[1],''),
          groundingChunks = None\<rparr>,
         \<lparr>chunk_text = Some (js ''\"flashcards\":[2],\"slides\":[3]} ```''),
          groundingChunks = None\<rparr>]"
  let ?full = "js ''All three: ```json {\"title\":\"T\",\"quiz\":[1],\"flashcards\":[2],\"slides\":[3]} ```''"
  let ?m0 = "js ''```json {\"title\":\"T\",\"quiz\":[1],\"flashcards\":[2],\"slides\":[3]} ```''"
  let ?m1 = "js ''{\"title\":\"T\",\"quiz\":[1],\"flashcards\":[2],\"slides\":[3]}''"
  let ?obj = "JObj [(js ''title'', JStr (js ''T'')), (js ''quiz'', JArr [JNum 1 0]),
                   (js ''flashcards'', JArr [JNum 2 0]), (js ''slides'', JArr [JNum 3 0])]"
  have acc: "stream_text ?stream = ?full"
    by (simp add: stream_text_def or_empty_def js_def)
  have m: "json_match (stream_text ?stream) = Some (?m0, ?m1)"
    by (simp add: stream_text_def or_empty_def json_match_def js_def startsWith_def trim_def
        is_whitespace_def)
  have p: "JSON_parse ?m1 = Some ?obj"
    by code_simp
  have nn: "?obj \<noteq> JNull"
    by simp
  have props: "get_prop ?obj (js ''quiz'') = Some (JArr [JNum 1 0])"
    "get_prop ?obj (js ''flashcards'') = Some (JArr [JNum 2 0])"
    "get_prop ?obj (js ''slides'') = Some (JArr [JNum 3 0])"
    "aid_title ?obj = JStr (js ''T'')"
    by (simp_all add: get_prop_def aid_title_def to_boolean_def js_def)
  have ne: "nonempty_array (Some (JArr [JNum 1 0]))" "nonempty_array (Some (JArr [JNum 2 0]))"
    "nonempty_array (Some (JArr [JNum 3 0]))"
    and its: "array_items (Some (JArr [JNum 1 0])) = [JNum 1 0]"
      "array_items (Some (JArr [JNum 2 0])) = [JNum 2 0]"
      "array_items (Some (JArr [JNum 3 0])) = [JNum 3 0]"
    by (simp_all add: nonempty_array_def array_items_def)
  have ft: "finalText (extract_aids (\<lambda>m e. []) ?full ?m0 ?obj) = js ''All three:''"
    unfolding extract_aids_def Let_def props
    by (simp add: ne replace_first_def trim_def is_whitespace_def js_def startsWith_def)
  have srcs: "dedup_sources (stream_sources ?stream) = []"
    by (simp add: stream_sources_def chunkSources_def dedup_sources_def new_Map_def Map_values_def)
  have ids: "show_int 1 = [49]"
    by (simp add: show_int_def show_nat.simps)
  have r: "processResponse (\<lambda>m e. []) (show_int 1) ?stream Completed 2 3
        \<lparr>sessions = [createNewSession 1], activeSessionId = Some (show_int 1),
         studyMode = ModeChat, isLoading = True, notifications = []\<rparr>
     = Inr \<lparr>sessions =
              [(createNewSession 1)
                 \<lparr>messages := [(placeholderMessage 2)\<lparr>content := js ''All three:''\<rparr>],
                  flashcards := [JNum 2 0], flashcardsTitle := JStr (js ''T''),
                  quizItems := [JNum 1 0], quizTitle := JStr (js ''T''),
                  slides := [JNum 3 0], slidesTitle := JStr (js ''T''),
                  updatedAt := 3\<rparr>],
            activeSessionId = Some (show_int 1), studyMode = ModeSlides, isLoading = False,
            notifications = []\<rparr>"
    unfolding several_aids_last_wins [OF m p nn] acc ft props
    by (simp add: ne its srcs ids createNewSession_def placeholderMessage_def)
  show ?thesis
    using m p nn r by (intro conjI)
qed

end
